theory Spec2Isabelle
  imports Complex_Main "HOL-Library.Word" "HOL-Library.Signed_Division"
begin

unbundle bit_operations_syntax

section \<open>The LM4 I2C master driver (chip/lm4/i2c.c)\<close>

text \<open>
  The driver talks to memory-mapped registers, GPIO pins and the task scheduler.
  None of these is a pure function of the program state, so the model is an
  input/output one: every read of a register, of a pin or of the task's events
  takes the next value of an input stream, every write and every call of an
  external routine is appended to a trace. A \<open>world\<close> holds the streams still
  to be read, the trace so far, and the little state the driver itself owns.
\<close>

type_synonym u8 = "8 word"
type_synonym u32 = "32 word"

subsection \<open>Constants of i2c.c\<close>

definition NUM_PORTS :: int where "NUM_PORTS = 6"

text \<open>Flags for writes to MCS.\<close>

definition LM4_I2C_MCS_RUN :: u32 where "LM4_I2C_MCS_RUN = 1"
definition LM4_I2C_MCS_START :: u32 where "LM4_I2C_MCS_START = 2"
definition LM4_I2C_MCS_STOP :: u32 where "LM4_I2C_MCS_STOP = 4"
definition LM4_I2C_MCS_ACK :: u32 where "LM4_I2C_MCS_ACK = 8"

text \<open>Flags for reads from MCS.\<close>

definition LM4_I2C_MCS_BUSY :: u32 where "LM4_I2C_MCS_BUSY = 1"
definition LM4_I2C_MCS_ERROR :: u32 where "LM4_I2C_MCS_ERROR = 2"
definition LM4_I2C_MCS_ARBLST :: u32 where "LM4_I2C_MCS_ARBLST = 16"
definition LM4_I2C_MCS_CLKTO :: u32 where "LM4_I2C_MCS_CLKTO = 128"

definition I2C_BITBANG_DELAY_US :: int where "I2C_BITBANG_DELAY_US = 5"
definition UNWEDGE_SCL_ATTEMPTS :: nat where "UNWEDGE_SCL_ATTEMPTS = 10"
definition UNWEDGE_SDA_ATTEMPTS :: nat where "UNWEDGE_SDA_ATTEMPTS = 3"

subsection \<open>Constants of headers that are not among the sources\<close>

text \<open>
  Modelled from the spec: include/common.h (enum ec_error_list) is missing. The spec
  lists the result codes as a small closed set: success, parameter-invalid, timeout and
  hardware-fault. i2c.c names them \<open>EC_SUCCESS\<close>, \<open>EC_ERROR_INVAL\<close>,
  \<open>EC_ERROR_TIMEOUT\<close> and \<open>EC_ERROR_UNKNOWN\<close>; \<open>if (rv)\<close> in the C code is
  \<open>rv \<noteq> EC_SUCCESS\<close> here.
\<close>

datatype ec_error_list = EC_SUCCESS | EC_ERROR_UNKNOWN | EC_ERROR_TIMEOUT | EC_ERROR_INVAL

text \<open>
  Modelled from the spec: include/task.h is missing. The timer event and the I2C completion
  event are two different bits of the task's 32-bit event mask.
\<close>

definition TASK_EVENT_I2C_IDLE :: u32 where "TASK_EVENT_I2C_IDLE = push_bit 28 1"
definition TASK_EVENT_TIMER :: u32 where "TASK_EVENT_TIMER = push_bit 31 1"

text \<open>
  Modelled from the spec: include/i2c.h is missing. The line levels are the two low bits of
  MBMON (bit 0 is SCL, bit 1 is SDA, as \<open>i2c_get_line_levels\<close> says); idle is both lines
  high. The big-endian flag is a bit of the slave address above the address byte.
\<close>

definition I2C_LINE_SCL_HIGH :: u32 where "I2C_LINE_SCL_HIGH = 1"
definition I2C_LINE_SDA_HIGH :: u32 where "I2C_LINE_SDA_HIGH = 2"
definition I2C_LINE_IDLE :: u32 where "I2C_LINE_IDLE = 3"
definition I2C_FLAG_BIG_ENDIAN :: int where "I2C_FLAG_BIG_ENDIAN = 256"

text \<open>Modelled from the spec: include/gpio.h is missing. Flags are combined with \<open>|\<close>;
  a combination is the list of its flags.\<close>

datatype gpio_flag = GPIO_INPUT | GPIO_OUTPUT | GPIO_OPEN_DRAIN

subsection \<open>Registers, events of the trace, the world\<close>

datatype reg =
    LM4_I2C_MSA int | LM4_I2C_MCS int | LM4_I2C_MDR int | LM4_I2C_MTPR int
  | LM4_I2C_MIMR int | LM4_I2C_MCR int | LM4_I2C_MBMON int | LM4_SYSTEM_SRI2C

datatype mutex = port_mutex int | raw_mode_mutex

datatype message =
    Bad_status int int u32 u32 u32
  | Unwedge_SCL_held_low | Unwedge_SDA_held_low | Unwedge_SDA_still_low | Unwedge_SCL_still_low

datatype event =
    RegRead reg u32
  | RegWrite reg u32
  | GpioGetLevel int int
  | GpioSetLevel int int
  | GpioSetFlags int "gpio_flag list"
  | GpioSetAlternateFunction u32 u32 int
  | TaskWaitEvent int u32
  | TaskSetEvent int u32 int
  | MutexLock mutex
  | MutexUnlock mutex
  | ClockWaitCycles int
  | Usleep int
  | Udelay int
  | Cprintf message

record world =
  reg_in :: "reg \<Rightarrow> nat \<Rightarrow> u32"
  gpio_in :: "int \<Rightarrow> nat \<Rightarrow> int"
  event_in :: "u32 list"
  stack_in :: "nat \<Rightarrow> u8"
  clock_freq :: int
  pending :: "int \<Rightarrow> u32"
  cur_task :: int
  task_waiting_on_port :: "int \<Rightarrow> int option"
  trace :: "event list"

text \<open>
  A call ends in one of five ways: it returns, an \<open>ASSERT\<close> fails, it reads or
  writes a buffer outside its bounds or through a null pointer (undefined in C), it
  divides by zero or divides the least \<open>int\<close> by -1 (undefined in C as well), or it
  does not return because the task is never woken again (the list \<open>event_in\<close> of
  wake-ups is used up while the port is still busy). The last case keeps the world
  reached.
\<close>

datatype stop = AssertFail | BadAccess | DivideByZero | NoReturn world

definition bind_stop :: "stop + 'a \<Rightarrow> ('a \<Rightarrow> stop + 'b) \<Rightarrow> stop + 'b" where
  "bind_stop m f = (case m of Inl s \<Rightarrow> Inl s | Inr x \<Rightarrow> f x)"

definition emit :: "event \<Rightarrow> world \<Rightarrow> world" where
  "emit e w = w\<lparr>trace := trace w @ [e]\<rparr>"

definition reg_read :: "reg \<Rightarrow> world \<Rightarrow> u32 \<times> world" where
  "reg_read r w =
     (reg_in w r 0,
      emit (RegRead r (reg_in w r 0)) (w\<lparr>reg_in := (reg_in w)(r := \<lambda>n. reg_in w r (Suc n))\<rparr>))"

definition reg_write :: "reg \<Rightarrow> u32 \<Rightarrow> world \<Rightarrow> world" where
  "reg_write r v w = emit (RegWrite r v) w"

subsection \<open>The task scheduler, as the driver uses it\<close>

text \<open>
  Modelled from the spec: core/cortex-m/task.c is missing. The scheduler is consumed as a
  capability: a blocking wait with timeout that returns the events that woke the task,
  and event posting. \<open>task_wait_event\<close> returns the task's pending events together with
  the next wake-up of \<open>event_in\<close> and clears them; \<open>task_set_event\<close> adds events to a
  task's pending ones. \<open>TASK_ID_INVALID\<close> is \<open>None\<close>.
\<close>

definition task_get_current :: "world \<Rightarrow> int" where
  "task_get_current w = cur_task w"

definition task_wait_event :: "int \<Rightarrow> world \<Rightarrow> (u32 \<times> world) option" where
  "task_wait_event timeout_us w =
     (case event_in w of
        [] \<Rightarrow> None
      | e # es \<Rightarrow>
          (let r = pending w (cur_task w) OR e
           in Some (r, emit (TaskWaitEvent timeout_us r)
                        (w\<lparr>event_in := es, pending := (pending w)(cur_task w := 0)\<rparr>))))"

definition task_set_event :: "int \<Rightarrow> u32 \<Rightarrow> int \<Rightarrow> world \<Rightarrow> world" where
  "task_set_event tskid ev wait w =
     emit (TaskSetEvent tskid ev wait) (w\<lparr>pending := (pending w)(tskid := pending w tskid OR ev)\<rparr>)"

subsection \<open>wait_idle\<close>

text \<open>
  The \<open>while (i & LM4_I2C_MCS_BUSY)\<close> loop of \<open>wait_idle\<close> together with the code after
  it; \<open>i\<close> is the status last read and \<open>event\<close> the events saved so far.
\<close>

function wait_idle_loop :: "int \<Rightarrow> u32 \<Rightarrow> u32 \<Rightarrow> world \<Rightarrow> stop + (ec_error_list \<times> world)" where
  "wait_idle_loop port i event w =
     (if i AND LM4_I2C_MCS_BUSY \<noteq> 0 then
        (let w1 = w\<lparr>task_waiting_on_port := (task_waiting_on_port w)(port := Some (task_get_current w))\<rparr>;
             w2 = reg_write (LM4_I2C_MIMR port) 3 w1
         in case task_wait_event 1000000 w2 of
              None \<Rightarrow> Inl (NoReturn w2)
            | Some (e, w3) \<Rightarrow>
                (let event' = event OR (e AND NOT TASK_EVENT_I2C_IDLE);
                     w4 = reg_write (LM4_I2C_MIMR port) 0 w3;
                     w5 = w4\<lparr>task_waiting_on_port := (task_waiting_on_port w4)(port := None)\<rparr>
                 in if event' AND TASK_EVENT_TIMER \<noteq> 0 then
                      Inr (EC_ERROR_TIMEOUT,
                           task_set_event (task_get_current w5) (event' AND NOT TASK_EVENT_TIMER) 0 w5)
                    else wait_idle_loop port (fst (reg_read (LM4_I2C_MCS port) w5)) event'
                           (snd (reg_read (LM4_I2C_MCS port) w5))))
      else
        (let w1 = task_set_event (task_get_current w) event 0 w
         in if i AND (LM4_I2C_MCS_CLKTO OR LM4_I2C_MCS_ARBLST OR LM4_I2C_MCS_ERROR) \<noteq> 0
            then Inr (EC_ERROR_UNKNOWN, w1)
            else Inr (EC_SUCCESS, w1)))"
  by pat_completeness auto
termination
  by (relation "measure (\<lambda>(port, i, event, w). length (event_in w))")
     (auto simp: task_wait_event_def reg_read_def reg_write_def emit_def Let_def
           split: list.splits)

declare wait_idle_loop.simps [simp del]

definition wait_idle :: "int \<Rightarrow> world \<Rightarrow> stop + (ec_error_list \<times> world)" where
  "wait_idle port w =
     (case reg_read (LM4_I2C_MCS port) w of (i, w1) \<Rightarrow> wait_idle_loop port i 0 w1)"


subsection \<open>The port table and the GPIO layer\<close>

text \<open>
  Modelled from the spec: struct i2c_port_t (include/i2c.h) and the board's tables
  \<open>i2c_ports\<close> and \<open>gpio_list\<close> are missing. A port descriptor has a display name, the
  port number, the target frequency in kHz and the SCL and SDA pins; the functions below
  take the table \<open>ports\<close> as their first argument (\<open>I2C_PORTS_USED\<close> is its length)
  and \<open>gl\<close> maps a GPIO signal to the port and mask of \<open>gpio_list\<close>.
\<close>

record i2c_port_t =
  p_name :: string
  p_port :: int
  p_kbps :: int
  p_scl :: int
  p_sda :: int

text \<open>Modelled from the spec: chip/lm4/gpio.c, timer.c, clock.c and the mutexes of task.c
  are missing; their calls are recorded in the trace, and \<open>gpio_get_level\<close> reads the
  next level of the pin.\<close>

definition gpio_set_level :: "int \<Rightarrow> int \<Rightarrow> world \<Rightarrow> world" where
  "gpio_set_level g v w = emit (GpioSetLevel g v) w"

definition gpio_get_level :: "int \<Rightarrow> world \<Rightarrow> int \<times> world" where
  "gpio_get_level g w =
     (gpio_in w g 0,
      emit (GpioGetLevel g (gpio_in w g 0)) (w\<lparr>gpio_in := (gpio_in w)(g := \<lambda>n. gpio_in w g (Suc n))\<rparr>))"

definition gpio_set_flags :: "int \<Rightarrow> gpio_flag list \<Rightarrow> world \<Rightarrow> world" where
  "gpio_set_flags g fl w = emit (GpioSetFlags g fl) w"

definition gpio_set_alternate_function :: "u32 \<Rightarrow> u32 \<Rightarrow> int \<Rightarrow> world \<Rightarrow> world" where
  "gpio_set_alternate_function gport gmask func w = emit (GpioSetAlternateFunction gport gmask func) w"

definition udelay :: "int \<Rightarrow> world \<Rightarrow> world" where
  "udelay us w = emit (Udelay us) w"

definition usleep :: "int \<Rightarrow> world \<Rightarrow> world" where
  "usleep us w = emit (Usleep us) w"

definition clock_wait_cycles :: "int \<Rightarrow> world \<Rightarrow> world" where
  "clock_wait_cycles n w = emit (ClockWaitCycles n) w"

definition clock_get_freq :: "world \<Rightarrow> int" where
  "clock_get_freq w = clock_freq w"

definition mutex_lock :: "mutex \<Rightarrow> world \<Rightarrow> world" where
  "mutex_lock m w = emit (MutexLock m) w"

definition mutex_unlock :: "mutex \<Rightarrow> world \<Rightarrow> world" where
  "mutex_unlock m w = emit (MutexUnlock m) w"

definition cprintf :: "message \<Rightarrow> world \<Rightarrow> world" where
  "cprintf m w = emit (Cprintf m) w"

text \<open>The search loop of \<open>get_sda_from_i2c_port\<close> and \<open>get_scl_from_i2c_port\<close>: the
  first entry of the table with the port number.\<close>

fun find_port :: "i2c_port_t list \<Rightarrow> int \<Rightarrow> i2c_port_t option" where
  "find_port [] port = None"
| "find_port (p # ps) port = (if p_port p = port then Some p else find_port ps port)"

text \<open>The result is \<open>Inr pin\<close> for \<open>EC_SUCCESS\<close> with the pin stored through the
  pointer, \<open>Inl EC_ERROR_INVAL\<close> when the pins are not defined.\<close>

definition get_sda_from_i2c_port :: "i2c_port_t list \<Rightarrow> int \<Rightarrow> stop + (ec_error_list + int)" where
  "get_sda_from_i2c_port ports port =
     (case find_port ports port of
        None \<Rightarrow> Inl AssertFail
      | Some p \<Rightarrow>
          if p_scl p = 0 \<and> p_sda p = 0 then Inr (Inl EC_ERROR_INVAL) else Inr (Inr (p_sda p)))"

definition get_scl_from_i2c_port :: "i2c_port_t list \<Rightarrow> int \<Rightarrow> stop + (ec_error_list + int)" where
  "get_scl_from_i2c_port ports port =
     (case find_port ports port of
        None \<Rightarrow> Inl AssertFail
      | Some p \<Rightarrow>
          if p_scl p = 0 \<and> p_sda p = 0 then Inr (Inl EC_ERROR_INVAL) else Inr (Inr (p_scl p)))"

definition i2c_raw_set_scl :: "i2c_port_t list \<Rightarrow> int \<Rightarrow> int \<Rightarrow> world \<Rightarrow> stop + world" where
  "i2c_raw_set_scl ports port level w =
     (case get_scl_from_i2c_port ports port of
        Inl s \<Rightarrow> Inl s
      | Inr (Inl e) \<Rightarrow> Inr w
      | Inr (Inr g) \<Rightarrow> Inr (gpio_set_level g level w))"

definition i2c_raw_set_sda :: "i2c_port_t list \<Rightarrow> int \<Rightarrow> int \<Rightarrow> world \<Rightarrow> stop + world" where
  "i2c_raw_set_sda ports port level w =
     (case get_sda_from_i2c_port ports port of
        Inl s \<Rightarrow> Inl s
      | Inr (Inl e) \<Rightarrow> Inr w
      | Inr (Inr g) \<Rightarrow> Inr (gpio_set_level g level w))"

text \<open>The part of \<open>i2c_raw_get_scl\<close> and \<open>i2c_raw_get_sda\<close> after the pin is known.\<close>

definition raw_get_pin :: "int \<Rightarrow> world \<Rightarrow> int \<times> world" where
  "raw_get_pin g w =
     (case gpio_get_level g w of
        (v, w1) \<Rightarrow>
          if v = 0 then (0, w1)
          else (case gpio_get_level g (gpio_set_flags g [GPIO_INPUT] w1) of
                  (ret, w2) \<Rightarrow> (ret, gpio_set_flags g [GPIO_OUTPUT, GPIO_OPEN_DRAIN] w2)))"

definition i2c_raw_get_scl :: "i2c_port_t list \<Rightarrow> int \<Rightarrow> world \<Rightarrow> stop + (int \<times> world)" where
  "i2c_raw_get_scl ports port w =
     (case get_scl_from_i2c_port ports port of
        Inl s \<Rightarrow> Inl s
      | Inr (Inl e) \<Rightarrow> Inr (1, w)
      | Inr (Inr g) \<Rightarrow> Inr (raw_get_pin g w))"

definition i2c_raw_get_sda :: "i2c_port_t list \<Rightarrow> int \<Rightarrow> world \<Rightarrow> stop + (int \<times> world)" where
  "i2c_raw_get_sda ports port w =
     (case get_sda_from_i2c_port ports port of
        Inl s \<Rightarrow> Inl s
      | Inr (Inl e) \<Rightarrow> Inr (1, w)
      | Inr (Inr g) \<Rightarrow> Inr (raw_get_pin g w))"

definition i2c_get_line_levels :: "int \<Rightarrow> world \<Rightarrow> u32 \<times> world" where
  "i2c_get_line_levels port w =
     (case reg_read (LM4_I2C_MBMON port) w of (v, w1) \<Rightarrow> (v AND 3, w1))"

definition raw_mode_enter :: "(int \<Rightarrow> u32 \<times> u32) \<Rightarrow> int \<Rightarrow> int \<Rightarrow> world \<Rightarrow> world" where
  "raw_mode_enter gl sda scl w =
     (let w1 = mutex_lock raw_mode_mutex w;
          w2 = gpio_set_alternate_function (fst (gl sda)) (snd (gl sda)) 0 w1;
          w3 = gpio_set_alternate_function (fst (gl scl)) (snd (gl scl)) 0 w2;
          w4 = gpio_set_flags scl [GPIO_OUTPUT, GPIO_OPEN_DRAIN] w3;
          w5 = gpio_set_level scl 1 w4;
          w6 = gpio_set_flags sda [GPIO_OUTPUT, GPIO_OPEN_DRAIN] w5
      in gpio_set_level sda 1 w6)"

definition raw_mode_exit :: "(int \<Rightarrow> u32 \<times> u32) \<Rightarrow> int \<Rightarrow> int \<Rightarrow> world \<Rightarrow> world" where
  "raw_mode_exit gl sda scl w =
     (let w1 = gpio_set_alternate_function (fst (gl sda)) (snd (gl sda)) 3 w;
          w2 = gpio_set_alternate_function (fst (gl scl)) (snd (gl scl)) 3 w1;
          w3 = gpio_set_flags scl [GPIO_OUTPUT] w2;
          w4 = gpio_set_flags sda [GPIO_OUTPUT, GPIO_OPEN_DRAIN] w3
      in mutex_unlock raw_mode_mutex w4)"

definition i2c_raw_mode ::
  "i2c_port_t list \<Rightarrow> (int \<Rightarrow> u32 \<times> u32) \<Rightarrow> int \<Rightarrow> int \<Rightarrow> world \<Rightarrow> stop + (ec_error_list \<times> world)" where
  "i2c_raw_mode ports gl port enable w =
     (case get_sda_from_i2c_port ports port of
        Inl s \<Rightarrow> Inl s
      | Inr (Inl e) \<Rightarrow> Inr (EC_ERROR_INVAL, w)
      | Inr (Inr sda) \<Rightarrow>
          (case get_scl_from_i2c_port ports port of
             Inl s \<Rightarrow> Inl s
           | Inr (Inl e) \<Rightarrow> Inr (EC_ERROR_INVAL, w)
           | Inr (Inr scl) \<Rightarrow>
               if enable \<noteq> 0 then Inr (EC_SUCCESS, raw_mode_enter gl sda scl w)
               else Inr (EC_SUCCESS, raw_mode_exit gl sda scl w)))"

subsection \<open>i2c_unwedge\<close>

text \<open>The loop \<open>for (i = 0;; i++)\<close> that waits for a stretched clock. The result is
  \<open>True\<close> when the loop is left by \<open>break\<close> and \<open>False\<close> when it gives up
  (\<open>goto unwedge_done\<close> with \<open>ret = EC_ERROR_UNKNOWN\<close>).\<close>

function unwedge_scl_loop :: "i2c_port_t list \<Rightarrow> int \<Rightarrow> nat \<Rightarrow> world \<Rightarrow> stop + (bool \<times> world)" where
  "unwedge_scl_loop ports port i w =
     (if i \<ge> UNWEDGE_SCL_ATTEMPTS then Inr (False, cprintf Unwedge_SCL_held_low w)
      else bind_stop (i2c_raw_get_scl ports port (udelay I2C_BITBANG_DELAY_US w))
             (\<lambda>(scl, w1). if scl \<noteq> 0 then Inr (True, w1)
                           else unwedge_scl_loop ports port (Suc i) w1))"
  by pat_completeness auto
termination
  by (relation "measure (\<lambda>(ports, port, i, w). UNWEDGE_SCL_ATTEMPTS - i)") auto

declare unwedge_scl_loop.simps [simp del]

text \<open>The loop \<open>for (j = 0; j < 9; j++)\<close> that clocks out up to nine bits.\<close>

function unwedge_clock_loop :: "i2c_port_t list \<Rightarrow> int \<Rightarrow> nat \<Rightarrow> world \<Rightarrow> stop + world" where
  "unwedge_clock_loop ports port j w =
     (if j < 9 then
        bind_stop (i2c_raw_get_sda ports port w)
          (\<lambda>(sda, w1). if sda \<noteq> 0 then Inr w1
             else bind_stop (i2c_raw_set_scl ports port 0 w1)
               (\<lambda>w2. bind_stop (i2c_raw_set_scl ports port 1 (udelay I2C_BITBANG_DELAY_US w2))
                 (\<lambda>w3. unwedge_clock_loop ports port (Suc j) (udelay I2C_BITBANG_DELAY_US w3))))
      else Inr w)"
  by pat_completeness auto
termination
  by (relation "measure (\<lambda>(ports, port, j, w). 9 - j)") auto

declare unwedge_clock_loop.simps [simp del]

text \<open>One pass of the loop \<open>for (i = 0; i < UNWEDGE_SDA_ATTEMPTS; i++)\<close>; the result
  says whether the pass ended in \<open>break\<close>.\<close>

definition unwedge_sda_attempt :: "i2c_port_t list \<Rightarrow> int \<Rightarrow> world \<Rightarrow> stop + (bool \<times> world)" where
  "unwedge_sda_attempt ports port w =
     bind_stop (i2c_raw_set_scl ports port 1 w)
       (\<lambda>w1. bind_stop (unwedge_clock_loop ports port 0 (udelay I2C_BITBANG_DELAY_US w1))
         (\<lambda>w2. bind_stop (i2c_raw_set_sda ports port 0 w2)
           (\<lambda>w3. bind_stop (i2c_raw_set_sda ports port 1 (udelay I2C_BITBANG_DELAY_US w3))
             (\<lambda>w4. bind_stop (i2c_raw_get_sda ports port (udelay I2C_BITBANG_DELAY_US w4))
               (\<lambda>(sda, w5). if sda \<noteq> 0
                  then bind_stop (i2c_raw_get_scl ports port w5) (\<lambda>(scl, w6). Inr (scl \<noteq> 0, w6))
                  else Inr (False, w5))))))"

function unwedge_sda_loop :: "i2c_port_t list \<Rightarrow> int \<Rightarrow> nat \<Rightarrow> world \<Rightarrow> stop + world" where
  "unwedge_sda_loop ports port i w =
     (if i < UNWEDGE_SDA_ATTEMPTS then
        bind_stop (unwedge_sda_attempt ports port w)
          (\<lambda>(finished, w1). if finished then Inr w1 else unwedge_sda_loop ports port (Suc i) w1)
      else Inr w)"
  by pat_completeness auto
termination
  by (relation "measure (\<lambda>(ports, port, i, w). UNWEDGE_SDA_ATTEMPTS - i)") auto

declare unwedge_sda_loop.simps [simp del]

text \<open>The label \<open>unwedge_done\<close>: leave raw mode and return \<open>ret\<close>.\<close>

definition unwedge_done ::
  "i2c_port_t list \<Rightarrow> (int \<Rightarrow> u32 \<times> u32) \<Rightarrow> int \<Rightarrow> ec_error_list \<Rightarrow> world \<Rightarrow> stop + (ec_error_list \<times> world)" where
  "unwedge_done ports gl port ret w =
     bind_stop (i2c_raw_mode ports gl port 0 w) (\<lambda>(rv, w1). Inr (ret, w1))"

text \<open>The part of \<open>i2c_unwedge\<close> from \<open>if (i2c_raw_get_sda(port))\<close> on, reached when
  the clock is high.\<close>

definition unwedge_data ::
  "i2c_port_t list \<Rightarrow> (int \<Rightarrow> u32 \<times> u32) \<Rightarrow> int \<Rightarrow> world \<Rightarrow> stop + (ec_error_list \<times> world)" where
  "unwedge_data ports gl port w =
     bind_stop (i2c_raw_get_sda ports port w)
       (\<lambda>(sda, w4).
          if sda \<noteq> 0 then unwedge_done ports gl port EC_SUCCESS w4
          else bind_stop (unwedge_sda_loop ports port 0 (cprintf Unwedge_SDA_held_low w4))
            (\<lambda>w5. bind_stop (i2c_raw_get_sda ports port w5)
              (\<lambda>(sda', w6).
                 let ret1 = (if sda' = 0 then EC_ERROR_UNKNOWN else EC_SUCCESS);
                     w7 = (if sda' = 0 then cprintf Unwedge_SDA_still_low w6 else w6)
                 in bind_stop (i2c_raw_get_scl ports port w7)
                   (\<lambda>(scl', w8).
                      let ret2 = (if scl' = 0 then EC_ERROR_UNKNOWN else ret1);
                          w9 = (if scl' = 0 then cprintf Unwedge_SCL_still_low w8 else w8)
                      in unwedge_done ports gl port ret2 w9))))"

definition i2c_unwedge ::
  "i2c_port_t list \<Rightarrow> (int \<Rightarrow> u32 \<times> u32) \<Rightarrow> int \<Rightarrow> world \<Rightarrow> stop + (ec_error_list \<times> world)" where
  "i2c_unwedge ports gl port w =
     bind_stop (i2c_raw_mode ports gl port 1 w)
       (\<lambda>(rv, w1).
          if rv \<noteq> EC_SUCCESS then Inr (EC_ERROR_UNKNOWN, w1)
          else bind_stop (i2c_raw_get_scl ports port w1)
            (\<lambda>(scl, w2).
               bind_stop (if scl = 0 then unwedge_scl_loop ports port 0 w2 else Inr (True, w2))
                 (\<lambda>(released, w3).
                    if \<not> released then unwedge_done ports gl port EC_ERROR_UNKNOWN w3
                    else unwedge_data ports gl port w3)))"

subsection \<open>i2c_transmit_receive\<close>

definition START :: int where "START = 1"
definition STOP :: int where "STOP = 1"
definition NO_START :: int where "NO_START = 0"
definition NO_STOP :: int where "NO_STOP = 0"

text \<open>
  The body of the \<open>if\<close> that finds the port in a bad state: print the status, unwedge
  the bus, reset the port through \<open>LM4_SYSTEM_SRI2C\<close>, restore \<open>MCR\<close> and the saved
  \<open>MTPR\<close>, sleep. The two line-level reads are the arguments of \<open>CPRINTF\<close>, taken left
  to right. The result of \<open>i2c_unwedge\<close> is ignored, as in the source.
\<close>

definition recover_port ::
  "i2c_port_t list \<Rightarrow> (int \<Rightarrow> u32 \<times> u32) \<Rightarrow> int \<Rightarrow> int \<Rightarrow> u32 \<Rightarrow> world \<Rightarrow> stop + world" where
  "recover_port ports gl port slave_addr reg_mcs w =
     (case reg_read (LM4_I2C_MTPR port) w of (tpr, w1) \<Rightarrow>
      case i2c_get_line_levels port w1 of (l1, w2) \<Rightarrow>
      case i2c_get_line_levels port w2 of (l2, w3) \<Rightarrow>
        bind_stop
          (i2c_unwedge ports gl port
             (cprintf (Bad_status port slave_addr reg_mcs
                         (l1 AND I2C_LINE_SCL_HIGH) (l2 AND I2C_LINE_SDA_HIGH)) w3))
          (\<lambda>(rvu, w5).
             case reg_read LM4_SYSTEM_SRI2C w5 of (s1, w6) \<Rightarrow>
             case reg_read LM4_SYSTEM_SRI2C
                    (clock_wait_cycles 3 (reg_write LM4_SYSTEM_SRI2C (s1 OR push_bit (nat port) 1) w6))
             of (s2, w9) \<Rightarrow>
               (let w10 = reg_write LM4_SYSTEM_SRI2C (s2 AND NOT (push_bit (nat port) 1)) w9;
                    w11 = clock_wait_cycles 3 w10;
                    w12 = reg_write (LM4_I2C_MCR port) 16 w11;
                    w13 = reg_write (LM4_I2C_MTPR port) tpr w12
                in Inr (usleep 1000 w13))))"

text \<open>The control word \<open>reg_mcs\<close> that the write loop builds for byte \<open>i\<close>: RUN, START
  on the first byte of a transfer not yet started, STOP on the last byte when the caller
  asked for it and no read follows.\<close>

definition tx_control :: "int \<Rightarrow> int \<Rightarrow> int \<Rightarrow> bool \<Rightarrow> nat \<Rightarrow> u32" where
  "tx_control transmit_size receive_size stop started i =
     (let reg_mcs0 = LM4_I2C_MCS_RUN;
          reg_mcs1 = (if \<not> started then reg_mcs0 OR LM4_I2C_MCS_START else reg_mcs0)
      in if stop \<noteq> 0 \<and> receive_size = 0 \<and> int i = transmit_size - 1
         then reg_mcs1 OR LM4_I2C_MCS_STOP else reg_mcs1)"

text \<open>The write loop \<open>for (i = 0; i < transmit_size; i++)\<close>. It yields the value an
  early \<open>return rv\<close> gives, or \<open>EC_SUCCESS\<close> at its end, with the flag \<open>started\<close>.\<close>

function tx_loop ::
  "int \<Rightarrow> u8 list \<Rightarrow> int \<Rightarrow> int \<Rightarrow> int \<Rightarrow> nat \<Rightarrow> bool \<Rightarrow> world
     \<Rightarrow> stop + (ec_error_list \<times> bool \<times> world)" where
  "tx_loop port transmit_data transmit_size receive_size stop i started w =
     (if int i < transmit_size then
        (if i < length transmit_data then
           (let w1 = reg_write (LM4_I2C_MDR port) (ucast (transmit_data ! i)) w;
                reg_mcs = tx_control transmit_size receive_size stop started i
            in bind_stop (wait_idle port (reg_write (LM4_I2C_MCS port) reg_mcs w1))
                 (\<lambda>(rv, w3). if rv \<noteq> EC_SUCCESS then Inr (rv, True, w3)
                    else tx_loop port transmit_data transmit_size receive_size stop (Suc i) True w3))
         else Inl BadAccess)
      else Inr (EC_SUCCESS, started, w))"
  by pat_completeness auto
termination
  by (relation "measure (\<lambda>(port, td, ts, rs, stop, i, started, w). nat (ts - int i))") auto

declare tx_loop.simps [simp del]

text \<open>The control word of the read loop for byte \<open>i\<close>: RUN, START on the first byte of a
  transfer not yet started, then STOP when the caller asked for it and the byte is the
  last one, ACK otherwise.\<close>

definition rx_control :: "int \<Rightarrow> int \<Rightarrow> bool \<Rightarrow> nat \<Rightarrow> u32" where
  "rx_control receive_size stop started i =
     (let reg_mcs0 = LM4_I2C_MCS_RUN;
          reg_mcs1 = (if \<not> started then reg_mcs0 OR LM4_I2C_MCS_START else reg_mcs0)
      in if stop \<noteq> 0 \<and> int i = receive_size - 1
         then reg_mcs1 OR LM4_I2C_MCS_STOP else reg_mcs1 OR LM4_I2C_MCS_ACK)"

text \<open>The read loop \<open>for (i = 0; i < receive_size; i++)\<close>.\<close>

function rx_loop ::
  "int \<Rightarrow> u8 list option \<Rightarrow> int \<Rightarrow> int \<Rightarrow> nat \<Rightarrow> bool \<Rightarrow> world
     \<Rightarrow> stop + (ec_error_list \<times> bool \<times> u8 list option \<times> world)" where
  "rx_loop port receive_data receive_size stop i started w =
     (if int i < receive_size then
        (case receive_data of
           None \<Rightarrow> Inl BadAccess
         | Some rd \<Rightarrow>
             if i < length rd then
               (let w1 = reg_write (LM4_I2C_MDR port) (ucast (rd ! i)) w;
                    reg_mcs = rx_control receive_size stop started i
                in bind_stop (wait_idle port (reg_write (LM4_I2C_MCS port) reg_mcs w1))
                     (\<lambda>(rv, w3). if rv \<noteq> EC_SUCCESS then Inr (rv, True, Some rd, w3)
                        else (case reg_read (LM4_I2C_MDR port) w3 of
                                (v, w4) \<Rightarrow> rx_loop port (Some (rd[i := ucast (v AND 255)]))
                                              receive_size stop (Suc i) True w4)))
             else Inl BadAccess)
      else Inr (EC_SUCCESS, started, receive_data, w))"
  by pat_completeness auto
termination
  by (relation "measure (\<lambda>(port, rd, rs, stop, i, started, w). nat (rs - int i))") auto

declare rx_loop.simps [simp del]

text \<open>
  The body of \<open>i2c_transmit_receive\<close> after the test for an empty transfer is three
  blocks in a row, each a definition here: the check of the port's state with the
  recovery (from \<open>reg_mcs = LM4_I2C_MCS(port)\<close> to the end of the first \<open>if\<close>), the
  write phase (\<open>if (transmit_data)\<close>) and the read phase (\<open>if (receive_size)\<close>).
  \<open>transmit_data\<close> and \<open>receive_data\<close> are \<open>None\<close> for a null pointer; \<open>started\<close>
  starts as \<open>start ? 0 : 1\<close>, so \<open>!started\<close> is \<open>start \<noteq> 0\<close> in the check. The
  second operand of \<open>||\<close> is evaluated only when the first is 0.
\<close>

definition port_check ::
  "i2c_port_t list \<Rightarrow> (int \<Rightarrow> u32 \<times> u32) \<Rightarrow> int \<Rightarrow> int \<Rightarrow> int \<Rightarrow> world \<Rightarrow> stop + world" where
  "port_check ports gl port slave_addr start w =
     (case reg_read (LM4_I2C_MCS port) w of (reg_mcs, w1) \<Rightarrow>
        if start \<noteq> 0 then
          (if reg_mcs AND (LM4_I2C_MCS_CLKTO OR LM4_I2C_MCS_ARBLST) \<noteq> 0
           then recover_port ports gl port slave_addr reg_mcs w1
           else (case i2c_get_line_levels port w1 of
                   (lv, w2) \<Rightarrow>
                     if lv \<noteq> I2C_LINE_IDLE
                     then recover_port ports gl port slave_addr reg_mcs w2
                     else Inr w2))
        else Inr w1)"

definition write_phase ::
  "int \<Rightarrow> int \<Rightarrow> u8 list option \<Rightarrow> int \<Rightarrow> int \<Rightarrow> int \<Rightarrow> int \<Rightarrow> world
     \<Rightarrow> stop + (ec_error_list \<times> bool \<times> world)" where
  "write_phase port slave_addr transmit_data transmit_size receive_size start stop w =
     (case transmit_data of
        None \<Rightarrow> Inr (EC_SUCCESS, start = 0, w)
      | Some td \<Rightarrow>
          tx_loop port td transmit_size receive_size stop 0 (start = 0)
            (reg_write (LM4_I2C_MSA port) (word_of_int slave_addr AND 255) w))"

definition read_phase ::
  "int \<Rightarrow> int \<Rightarrow> int \<Rightarrow> u8 list option \<Rightarrow> int \<Rightarrow> int \<Rightarrow> bool \<Rightarrow> world
     \<Rightarrow> stop + (ec_error_list \<times> bool \<times> u8 list option \<times> world)" where
  "read_phase port slave_addr transmit_size receive_data receive_size stop started w =
     (if receive_size \<noteq> 0 then
        rx_loop port receive_data receive_size stop 0
          (if transmit_size \<noteq> 0 then False else started)
          (reg_write (LM4_I2C_MSA port) ((word_of_int slave_addr AND 255) OR 1) w)
      else Inr (EC_SUCCESS, started, receive_data, w))"

text \<open>The result carries the receive buffer as the call leaves it.\<close>

definition i2c_transmit_receive ::
  "i2c_port_t list \<Rightarrow> (int \<Rightarrow> u32 \<times> u32) \<Rightarrow> int \<Rightarrow> int \<Rightarrow> u8 list option \<Rightarrow> int
     \<Rightarrow> u8 list option \<Rightarrow> int \<Rightarrow> int \<Rightarrow> int \<Rightarrow> world
     \<Rightarrow> stop + (ec_error_list \<times> u8 list option \<times> world)" where
  "i2c_transmit_receive ports gl port slave_addr transmit_data transmit_size
       receive_data receive_size start stop w =
     (if transmit_size = 0 \<and> receive_size = 0 then Inr (EC_SUCCESS, receive_data, w)
      else
        bind_stop (port_check ports gl port slave_addr start w)
          (\<lambda>w3.
             bind_stop
               (write_phase port slave_addr transmit_data transmit_size receive_size start stop w3)
               (\<lambda>(rv, started, w4).
                  if rv \<noteq> EC_SUCCESS then Inr (rv, receive_data, w4)
                  else
                    bind_stop
                      (read_phase port slave_addr transmit_size receive_data receive_size stop
                         started w4)
                      (\<lambda>(rv', started', rd', w5).
                         if rv' \<noteq> EC_SUCCESS then Inr (rv', rd', w5)
                         else (case reg_read (LM4_I2C_MCS port) w5 of
                                 (v, w6) \<Rightarrow>
                                   if v AND (LM4_I2C_MCS_CLKTO OR LM4_I2C_MCS_ARBLST OR
                                             LM4_I2C_MCS_ERROR) \<noteq> 0
                                   then Inr (EC_ERROR_UNKNOWN, rd', w6)
                                   else Inr (EC_SUCCESS, rd', w6))))))"

subsection \<open>Register reads and the block read\<close>

text \<open>A local array that the source does not initialise holds whatever the stack held:
  its bytes are the next ones of \<open>stack_in\<close>.\<close>

definition uninitialised :: "nat \<Rightarrow> world \<Rightarrow> u8 list \<times> world" where
  "uninitialised n w = (map (stack_in w) [0..<n], w\<lparr>stack_in := \<lambda>k. stack_in w (k + n)\<rparr>)"

definition i2c_read16 ::
  "i2c_port_t list \<Rightarrow> (int \<Rightarrow> u32 \<times> u32) \<Rightarrow> int \<Rightarrow> int \<Rightarrow> int \<Rightarrow> int \<Rightarrow> world
     \<Rightarrow> stop + (ec_error_list \<times> int \<times> world)" where
  "i2c_read16 ports gl port slave_addr offset data w =
     (case uninitialised 2 w of (buf, w0) \<Rightarrow>
        bind_stop
          (i2c_transmit_receive ports gl port slave_addr (Some [word_of_int offset AND 255]) 1
             (Some buf) 2 START STOP (mutex_lock (port_mutex port) w0))
          (\<lambda>(rv, rd, w2).
             if rv \<noteq> EC_SUCCESS then Inr (rv, data, mutex_unlock (port_mutex port) w2)
             else (case rd of
                     Some [b0, b1] \<Rightarrow>
                       Inr (EC_SUCCESS,
                            (if slave_addr AND I2C_FLAG_BIG_ENDIAN \<noteq> 0
                             then push_bit 8 (uint b0) OR uint b1
                             else push_bit 8 (uint b1) OR uint b0),
                            mutex_unlock (port_mutex port) w2)
                   | _ \<Rightarrow> Inl BadAccess)))"

definition i2c_read8 ::
  "i2c_port_t list \<Rightarrow> (int \<Rightarrow> u32 \<times> u32) \<Rightarrow> int \<Rightarrow> int \<Rightarrow> int \<Rightarrow> int \<Rightarrow> world
     \<Rightarrow> stop + (ec_error_list \<times> int \<times> world)" where
  "i2c_read8 ports gl port slave_addr offset data w =
     (case uninitialised 1 w of (val, w0) \<Rightarrow>
        bind_stop
          (i2c_transmit_receive ports gl port slave_addr (Some [word_of_int offset]) 1
             (Some val) 1 START STOP (mutex_lock (port_mutex port) w0))
          (\<lambda>(rv, rd, w2).
             if rv = EC_SUCCESS then
               (case rd of
                  Some [v] \<Rightarrow> Inr (rv, uint v, mutex_unlock (port_mutex port) w2)
                | _ \<Rightarrow> Inl BadAccess)
             else Inr (rv, data, mutex_unlock (port_mutex port) w2)))"

text \<open>\<open>data\<close> is the caller's buffer and \<open>len\<close> the size the caller states.\<close>

definition i2c_read_string ::
  "i2c_port_t list \<Rightarrow> (int \<Rightarrow> u32 \<times> u32) \<Rightarrow> int \<Rightarrow> int \<Rightarrow> int \<Rightarrow> u8 list \<Rightarrow> int \<Rightarrow> world
     \<Rightarrow> stop + (ec_error_list \<times> u8 list \<times> world)" where
  "i2c_read_string ports gl port slave_addr offset data len w =
     (case uninitialised 1 w of (bl0, w0) \<Rightarrow>
        bind_stop
          (i2c_transmit_receive ports gl port slave_addr (Some [word_of_int offset]) 1
             (Some bl0) 1 START NO_STOP (mutex_lock (port_mutex port) w0))
          (\<lambda>(rv, rd, w2).
             if rv \<noteq> EC_SUCCESS then Inr (rv, data, mutex_unlock (port_mutex port) w2)
             else (case rd of
                     Some [bl] \<Rightarrow>
                       (let block_length =
                              (if len \<noteq> 0 \<and> uint bl > len - 1 then (word_of_int (len - 1) :: u8) else bl)
                        in bind_stop
                             (i2c_transmit_receive ports gl port slave_addr None 0
                                (Some data) (uint block_length) NO_START STOP w2)
                             (\<lambda>(rv2, rd2, w3).
                                case rd2 of
                                  Some d \<Rightarrow>
                                    if unat block_length < length d
                                    then Inr (rv2, d[unat block_length := 0],
                                              mutex_unlock (port_mutex port) w3)
                                    else Inl BadAccess
                                | None \<Rightarrow> Inl BadAccess))
                   | _ \<Rightarrow> Inl BadAccess)))"

subsection \<open>i2c_freq_changed\<close>

text \<open>
  The arithmetic of \<open>i2c_freq_changed\<close> is on 32-bit \<open>int\<close>s. \<open>int32\<close> wraps a result
  into the 32-bit two's complement range, which is what the Cortex-M does where C leaves
  the overflow undefined; \<open>sdiv\<close> truncates towards zero like C's \<open>/\<close>. The
  division \<open>(freq + d - 1) / d\<close> has no value when \<open>d\<close> is 0 (a port of 0 kHz, or
  \<open>20000 * kbps\<close> wrapping to 0) or when it is the least \<open>int\<close> divided by -1:
  \<open>tpr_of\<close> is \<open>None\<close> there and the call stops at that port, before its write.
\<close>

definition int32 :: "int \<Rightarrow> int" where
  "int32 x = signed_take_bit 31 x"

definition tpr_of :: "int \<Rightarrow> int \<Rightarrow> int option" where
  "tpr_of freq kbps =
     (let d = int32 (int32 (2 * (6 + 4)) * int32 (kbps * 1000));
          n = int32 (int32 (freq + d) - 1)
      in if d = 0 \<or> (n = - (2 ^ 31) \<and> d = - 1) then None
         else Some (int32 (int32 (n sdiv d) - 1)))"

fun i2c_freq_changed_loop :: "i2c_port_t list \<Rightarrow> int \<Rightarrow> world \<Rightarrow> stop + world" where
  "i2c_freq_changed_loop [] freq w = Inr w"
| "i2c_freq_changed_loop (p # ps) freq w =
     (case tpr_of freq (p_kbps p) of
        None \<Rightarrow> Inl DivideByZero
      | Some tpr \<Rightarrow>
          i2c_freq_changed_loop ps freq
            (reg_write (LM4_I2C_MTPR (p_port p)) (word_of_int tpr) w))"

definition i2c_freq_changed ::
  "i2c_port_t list \<Rightarrow> world \<Rightarrow> stop + (ec_error_list \<times> world)" where
  "i2c_freq_changed ports w =
     bind_stop (i2c_freq_changed_loop ports (clock_get_freq w) w) (\<lambda>w'. Inr (EC_SUCCESS, w'))"


section \<open>Reading a trace\<close>

text \<open>Delays of the bit-banging code, events that neither drive a pin nor wait, and the
  level a pin was last read at.\<close>

fun is_delay :: "event \<Rightarrow> bool" where
  "is_delay (Udelay us) = True"
| "is_delay _ = False"

fun quiet :: "event \<Rightarrow> bool" where
  "quiet (GpioGetLevel g v) = True"
| "quiet (GpioSetFlags g fl) = True"
| "quiet (Cprintf m) = True"
| "quiet _ = False"

fun last_level :: "int \<Rightarrow> event list \<Rightarrow> int option" where
  "last_level g [] = None"
| "last_level g (e # es) =
     (case last_level g es of
        Some v \<Rightarrow> Some v
      | None \<Rightarrow> (case e of GpioGetLevel g' v \<Rightarrow> if g' = g then Some v else None | _ \<Rightarrow> None))"

text \<open>How often the clock pin \<open>scl\<close> is driven low.\<close>

definition clock_low_count :: "int \<Rightarrow> event list \<Rightarrow> nat" where
  "clock_low_count scl es = length (filter (\<lambda>e. e = GpioSetLevel scl 0) es)"

text \<open>The events of the GPIO bit-banging code: no register is read or written.\<close>

fun raw_event :: "event \<Rightarrow> bool" where
  "raw_event (RegRead r v) = False"
| "raw_event (RegWrite r v) = False"
| "raw_event (TaskWaitEvent t r) = False"
| "raw_event (TaskSetEvent t e wt) = False"
| "raw_event (ClockWaitCycles n) = False"
| "raw_event (Usleep us) = False"
| "raw_event _ = True"

text \<open>The writes that put an address or a control word on a port, and the control words
  alone.\<close>

fun is_ctl_write :: "int \<Rightarrow> event \<Rightarrow> bool" where
  "is_ctl_write port (RegWrite r v) = (r = LM4_I2C_MSA port \<or> r = LM4_I2C_MCS port)"
| "is_ctl_write port _ = False"

definition ctl_writes :: "int \<Rightarrow> event list \<Rightarrow> event list" where
  "ctl_writes port es = filter (is_ctl_write port) es"

fun mcs_writes :: "int \<Rightarrow> event list \<Rightarrow> u32 list" where
  "mcs_writes port [] = []"
| "mcs_writes port (RegWrite r v # es) =
     (if r = LM4_I2C_MCS port then v # mcs_writes port es else mcs_writes port es)"
| "mcs_writes port (e # es) = mcs_writes port es"

text \<open>The values read from the data register of a port, in order.\<close>

fun mdr_reads :: "int \<Rightarrow> event list \<Rightarrow> u32 list" where
  "mdr_reads port [] = []"
| "mdr_reads port (RegRead r v # es) =
     (if r = LM4_I2C_MDR port then v # mdr_reads port es else mdr_reads port es)"
| "mdr_reads port (e # es) = mdr_reads port es"

text \<open>The events of a transfer on a port: writes of the address, data, control and
  interrupt-mask registers, reads of the status and data registers, and the task's waits
  and event posts.\<close>

fun transfer_event :: "int \<Rightarrow> event \<Rightarrow> bool" where
  "transfer_event port (RegWrite r v) =
     (r = LM4_I2C_MSA port \<or> r = LM4_I2C_MDR port \<or> r = LM4_I2C_MCS port \<or> r = LM4_I2C_MIMR port)"
| "transfer_event port (RegRead r v) = (r = LM4_I2C_MCS port \<or> r = LM4_I2C_MDR port)"
| "transfer_event port (TaskWaitEvent t r) = True"
| "transfer_event port (TaskSetEvent t e wt) = True"
| "transfer_event port _ = False"

text \<open>The world in which a call ends, when it returns or never returns.\<close>

fun final_world :: "('a \<Rightarrow> world) \<Rightarrow> stop + 'a \<Rightarrow> world option" where
  "final_world proj (Inr x) = Some (proj x)"
| "final_world proj (Inl (NoReturn w)) = Some w"
| "final_world proj (Inl AssertFail) = None"
| "final_world proj (Inl BadAccess) = None"
| "final_world proj (Inl DivideByZero) = None"

text \<open>What a call returns, when it returns.\<close>

definition returned :: "stop + 'a \<Rightarrow> 'a option" where
  "returned m = (case m of Inr x \<Rightarrow> Some x | Inl s \<Rightarrow> None)"

text \<open>A world reached from another by GPIO bit-banging events only, and a call that ends
  in such a world or in a failed assertion.\<close>

definition raw_ext :: "world \<Rightarrow> world \<Rightarrow> bool" where
  "raw_ext w w' \<longleftrightarrow> (\<exists>es. trace w' = trace w @ es \<and> (\<forall>e\<in>set es. raw_event e))"

fun raw_res :: "('a \<Rightarrow> world) \<Rightarrow> world \<Rightarrow> stop + 'a \<Rightarrow> bool" where
  "raw_res proj w (Inr x) = raw_ext w (proj x)"
| "raw_res proj w (Inl AssertFail) = True"
| "raw_res proj w (Inl BadAccess) = False"
| "raw_res proj w (Inl DivideByZero) = False"
| "raw_res proj w (Inl (NoReturn w')) = False"

text \<open>Register reads and console messages.\<close>

fun is_read_or_print :: "event \<Rightarrow> bool" where
  "is_read_or_print (RegRead r v) = True"
| "is_read_or_print (Cprintf m) = True"
| "is_read_or_print _ = False"

text \<open>What \<open>recover_port\<close> does after \<open>i2c_unwedge\<close>: the soft reset of the port through
  the system register (\<open>s1\<close> and \<open>s2\<close> are the values read back), \<open>MCR\<close>, the restored
  clock divisor \<open>tpr\<close> and the settle delay.\<close>

definition reset_events :: "int \<Rightarrow> u32 \<Rightarrow> u32 \<Rightarrow> u32 \<Rightarrow> event list" where
  "reset_events port s1 s2 tpr =
     [RegRead LM4_SYSTEM_SRI2C s1, RegWrite LM4_SYSTEM_SRI2C (s1 OR push_bit (nat port) 1),
      ClockWaitCycles 3,
      RegRead LM4_SYSTEM_SRI2C s2, RegWrite LM4_SYSTEM_SRI2C (s2 AND NOT (push_bit (nat port) 1)),
      ClockWaitCycles 3,
      RegWrite (LM4_I2C_MCR port) 16, RegWrite (LM4_I2C_MTPR port) tpr, Usleep 1000]"

text \<open>The address and control writes of a whole transfer that is not cut short: the
  address with the write bit and one control word for each byte sent, when there is a
  transmit buffer; then, when \<open>receive_size\<close> is not 0, the address with the read bit
  and one control word for each byte received.\<close>

definition expected_ctl :: "int \<Rightarrow> int \<Rightarrow> u8 list option \<Rightarrow> int \<Rightarrow> int \<Rightarrow> int \<Rightarrow> int \<Rightarrow> event list" where
  "expected_ctl port slave_addr transmit_data transmit_size receive_size start stop =
     (case transmit_data of
        None \<Rightarrow> []
      | Some td \<Rightarrow>
          RegWrite (LM4_I2C_MSA port) (word_of_int slave_addr AND 255) #
          map (\<lambda>k. RegWrite (LM4_I2C_MCS port)
                     (tx_control transmit_size receive_size stop (start = 0 \<or> k \<noteq> 0) k))
            [0..<nat transmit_size]) @
     (if receive_size \<noteq> 0 then
        RegWrite (LM4_I2C_MSA port) ((word_of_int slave_addr AND 255) OR 1) #
        map (\<lambda>k. RegWrite (LM4_I2C_MCS port)
                   (rx_control receive_size stop ((transmit_size = 0 \<and> start = 0) \<or> k \<noteq> 0) k))
          [0..<nat receive_size]
      else [])"

text \<open>\<open>port_check\<close> runs the recovery exactly when a start is requested and either the
  status read shows a clock timeout or a lost arbitration, or the lines sampled are not
  both high.\<close>

definition port_is_bad :: "int \<Rightarrow> int \<Rightarrow> world \<Rightarrow> bool" where
  "port_is_bad port start w \<longleftrightarrow>
     start \<noteq> 0 \<and>
     (reg_in w (LM4_I2C_MCS port) 0 AND (LM4_I2C_MCS_CLKTO OR LM4_I2C_MCS_ARBLST) \<noteq> 0 \<or>
      reg_in w (LM4_I2C_MBMON port) 0 AND 3 \<noteq> I2C_LINE_IDLE)"

text \<open>The two halves of \<open>expected_ctl\<close>.\<close>

definition tx_part :: "int \<Rightarrow> int \<Rightarrow> u8 list option \<Rightarrow> int \<Rightarrow> int \<Rightarrow> int \<Rightarrow> int \<Rightarrow> event list" where
  "tx_part port slave_addr transmit_data transmit_size receive_size start stop =
     (case transmit_data of
        None \<Rightarrow> []
      | Some td \<Rightarrow>
          RegWrite (LM4_I2C_MSA port) (word_of_int slave_addr AND 255) #
          map (\<lambda>k. RegWrite (LM4_I2C_MCS port)
                     (tx_control transmit_size receive_size stop (start = 0 \<or> k \<noteq> 0) k))
            [0..<nat transmit_size])"

definition rx_part :: "int \<Rightarrow> int \<Rightarrow> int \<Rightarrow> int \<Rightarrow> int \<Rightarrow> int \<Rightarrow> event list" where
  "rx_part port slave_addr transmit_size receive_size start stop =
     (if receive_size \<noteq> 0 then
        RegWrite (LM4_I2C_MSA port) ((word_of_int slave_addr AND 255) OR 1) #
        map (\<lambda>k. RegWrite (LM4_I2C_MCS port)
                   (rx_control receive_size stop ((transmit_size = 0 \<and> start = 0) \<or> k \<noteq> 0) k))
          [0..<nat receive_size]
      else [])"

section \<open>Example tables and worlds\<close>

definition ports1 :: "i2c_port_t list" where
  "ports1 = [\<lparr>p_name = ''batt'', p_port = 0, p_kbps = 100, p_scl = 10, p_sda = 11\<rparr>]"

definition gl1 :: "int \<Rightarrow> u32 \<times> u32" where
  "gl1 g = (word_of_int g, 1)"

text \<open>A port that stays busy, and a task woken first by an unrelated event (bit 2), then
  by the timer together with another unrelated event (bit 3).\<close>

definition world_timeout :: world where
  "world_timeout = \<lparr>reg_in = (\<lambda>r n. 1), gpio_in = (\<lambda>g n. 1),
     event_in = [4, push_bit 31 1 OR 8], stack_in = (\<lambda>n. 0), clock_freq = 66666667,
     pending = (\<lambda>t. 0), cur_task = 2, task_waiting_on_port = (\<lambda>p. None), trace = []\<rparr>"

text \<open>A port whose lines are idle but that stays busy, and a task woken by the timer.\<close>

definition world_busy :: world where
  "world_busy = \<lparr>reg_in = (\<lambda>r n. case r of LM4_I2C_MBMON p \<Rightarrow> 3 | _ \<Rightarrow> 1),
     gpio_in = (\<lambda>g n. 1), event_in = [push_bit 31 1], stack_in = (\<lambda>n. 0),
     clock_freq = 66666667, pending = (\<lambda>t. 0), cur_task = 2,
     task_waiting_on_port = (\<lambda>p. None), trace = []\<rparr>"

text \<open>A healthy port: never busy, no error, lines idle, the data register reading
  2, 3, 4 and so on.\<close>

definition world_idle :: world where
  "world_idle = \<lparr>reg_in = (\<lambda>r n. case r of LM4_I2C_MBMON p \<Rightarrow> 3
                                          | LM4_I2C_MDR p \<Rightarrow> of_nat n + 2 | _ \<Rightarrow> 32),
     gpio_in = (\<lambda>g n. 1), event_in = [], stack_in = (\<lambda>n. 0), clock_freq = 66666667,
     pending = (\<lambda>t. 0), cur_task = 2, task_waiting_on_port = (\<lambda>p. None), trace = []\<rparr>"

text \<open>A slave that holds the clock low, and one that holds the data line low.\<close>

definition world_scl_low :: world where
  "world_scl_low = \<lparr>reg_in = (\<lambda>r n. 32), gpio_in = (\<lambda>g n. if g = 10 then 0 else 1),
     event_in = [], stack_in = (\<lambda>n. 0), clock_freq = 66666667,
     pending = (\<lambda>t. 0), cur_task = 2, task_waiting_on_port = (\<lambda>p. None), trace = []\<rparr>"

definition world_sda_low :: world where
  "world_sda_low = \<lparr>reg_in = (\<lambda>r n. 32), gpio_in = (\<lambda>g n. if g = 11 then 0 else 1),
     event_in = [], stack_in = (\<lambda>n. 0), clock_freq = 66666667,
     pending = (\<lambda>t. 0), cur_task = 2, task_waiting_on_port = (\<lambda>p. None), trace = []\<rparr>"



text \<open>The first transfer of \<open>i2c_read_string\<close>: the register offset is sent and the
  block length read back into the local \<open>block_length\<close>, with the port mutex held.\<close>

definition length_read ::
  "i2c_port_t list \<Rightarrow> (int \<Rightarrow> u32 \<times> u32) \<Rightarrow> int \<Rightarrow> int \<Rightarrow> int \<Rightarrow> world
     \<Rightarrow> stop + (ec_error_list \<times> u8 list option \<times> world)" where
  "length_read ports gl port slave_addr offset w =
     (case uninitialised 1 w of (bl0, w0) \<Rightarrow>
        i2c_transmit_receive ports gl port slave_addr (Some [word_of_int offset]) 1
          (Some bl0) 1 START NO_STOP (mutex_lock (port_mutex port) w0))"

text \<open>A port on which the status read that follows the second payload byte of a block
  read shows an error; the block length read is 3.\<close>

definition world_nack :: world where
  "world_nack = \<lparr>reg_in = (\<lambda>r n. case r of LM4_I2C_MBMON p \<Rightarrow> 3
                                         | LM4_I2C_MCS p \<Rightarrow> (if n = 6 then 2 else 32)
                                         | LM4_I2C_MDR p \<Rightarrow> of_nat n + 3 | _ \<Rightarrow> 32),
     gpio_in = (\<lambda>g n. 1), event_in = [], stack_in = (\<lambda>n. 0), clock_freq = 66666667,
     pending = (\<lambda>t. 0), cur_task = 2, task_waiting_on_port = (\<lambda>p. None), trace = []\<rparr>"

section \<open>Port synchronisation: wait_idle\<close>

lemmas mcs_flags =
  LM4_I2C_MCS_RUN_def LM4_I2C_MCS_START_def LM4_I2C_MCS_STOP_def LM4_I2C_MCS_ACK_def
  LM4_I2C_MCS_BUSY_def LM4_I2C_MCS_ERROR_def LM4_I2C_MCS_ARBLST_def LM4_I2C_MCS_CLKTO_def

lemma event_in_emit [simp]: "event_in (emit e w) = event_in w"
  by (simp add: emit_def)

lemma event_in_reg_write [simp]: "event_in (reg_write r v w) = event_in w"
  by (simp add: reg_write_def)

lemma event_in_reg_read [simp]: "event_in (snd (reg_read r w)) = event_in w"
  by (simp add: reg_read_def)

lemma event_in_task_wait_event:
  "task_wait_event t w = Some (e, w') \<Longrightarrow> length (event_in w') < length (event_in w)"
  by (auto simp: task_wait_event_def Let_def split: list.splits)

lemmas io_defs = reg_read_def reg_write_def emit_def task_wait_event_def task_set_event_def
  task_get_current_def

lemma timer_exp: "TASK_EVENT_TIMER = 2 ^ 31"
  by (simp add: TASK_EVENT_TIMER_def)

lemma idle_exp: "TASK_EVENT_I2C_IDLE = 2 ^ 28"
  by (simp add: TASK_EVENT_I2C_IDLE_def)

lemma and_timer: "x AND TASK_EVENT_TIMER \<noteq> 0 \<longleftrightarrow> bit x 31"
  unfolding timer_exp by (simp only: and_exp_eq_0_iff_not_bit not_not)

lemma bit_timer: "bit TASK_EVENT_TIMER n \<longleftrightarrow> n = 31"
  unfolding timer_exp bit_exp_iff possible_bit_word by auto

lemma bit_idle: "bit TASK_EVENT_I2C_IDLE n \<longleftrightarrow> n = 28"
  unfolding idle_exp bit_exp_iff possible_bit_word by auto

lemma bit_kept: "bit (r AND NOT TASK_EVENT_I2C_IDLE) n \<longleftrightarrow> bit r n \<and> n \<noteq> 28"
  by (auto simp add: bit_and_iff bit_not_iff bit_idle dest: bit_imp_possible_bit)

lemma bit_saved:
  "bit (event OR (r AND NOT TASK_EVENT_I2C_IDLE)) n \<longleftrightarrow> bit event n \<or> (bit r n \<and> n \<noteq> 28)"
  by (simp add: bit_or_iff bit_kept)

lemma bit_reposted: "bit (event AND NOT TASK_EVENT_TIMER) n \<longleftrightarrow> bit event n \<and> n \<noteq> 31"
  by (auto simp add: bit_and_iff bit_not_iff bit_timer dest: bit_imp_possible_bit)

text \<open>
  What a run of the loop adds to the trace and leaves pending, for a run that returns or
  stays blocked in world \<open>w'\<close>: a wake-up with the timer bit makes the loop return
  \<open>EC_ERROR_TIMEOUT\<close>, and when the loop returns, every bit saved in \<open>event\<close> or
  delivered by a wake-up, other than the timer and the I2C completion bit, is pending.
\<close>

lemma wait_idle_loop_events:
  assumes "wait_idle_loop port i event w = Inr (rv, w') \<or>
           wait_idle_loop port i event w = Inl (NoReturn w')"
      and "\<not> bit event 31"
  shows "\<exists>es. trace w' = trace w @ es \<and> cur_task w' = cur_task w \<and>
     ((\<exists>t r. TaskWaitEvent t r \<in> set es \<and> bit r 31) \<longrightarrow>
         wait_idle_loop port i event w = Inr (EC_ERROR_TIMEOUT, w')) \<and>
     (wait_idle_loop port i event w = Inr (rv, w') \<longrightarrow>
        (\<forall>n. n \<noteq> 28 \<and> n \<noteq> 31 \<and> (bit event n \<or> (\<exists>t r. TaskWaitEvent t r \<in> set es \<and> bit r n))
             \<longrightarrow> bit (pending w' (cur_task w)) n))"
  using assms
proof (induction evs \<equiv> "event_in w" arbitrary: w i event)
  case Nil
  show ?case
  proof (cases "i AND LM4_I2C_MCS_BUSY \<noteq> 0")
    case True
    with Nil show ?thesis
      by (subst (asm) (1 2) wait_idle_loop.simps)
         (auto simp: io_defs Let_def wait_idle_loop.simps[of port i event w])
  next
    case False
    with Nil show ?thesis
      by (subst (asm) (1 2) wait_idle_loop.simps)
         (auto simp: io_defs Let_def wait_idle_loop.simps[of port i event w] bit_or_iff
               split: if_splits)
  qed
next
  case (Cons e evs)
  show ?case
  proof (cases "i AND LM4_I2C_MCS_BUSY \<noteq> 0")
    case False
    with Cons.prems show ?thesis
      by (subst (asm) (1 2) wait_idle_loop.simps)
         (auto simp: io_defs Let_def wait_idle_loop.simps[of port i event w] bit_or_iff
               split: if_splits)
  next
    case True
    define r where "r = pending w (cur_task w) OR e"
    define event' where "event' = event OR (r AND NOT TASK_EVENT_I2C_IDLE)"
    define w5 where "w5 = w\<lparr>event_in := evs, pending := (pending w)(cur_task w := 0),
        trace := trace w @ [RegWrite (LM4_I2C_MIMR port) 3, TaskWaitEvent 1000000 r,
                            RegWrite (LM4_I2C_MIMR port) 0],
        task_waiting_on_port := (task_waiting_on_port w)(port := None)\<rparr>"
    show ?thesis
    proof (cases "bit event' 31")
      case t: True
      have eq: "wait_idle_loop port i event w = Inr (EC_ERROR_TIMEOUT,
                  task_set_event (cur_task w) (event' AND NOT TASK_EVENT_TIMER) 0 w5)"
        using True t Cons.hyps(2)[symmetric]
        by (subst wait_idle_loop.simps)
           (simp add: io_defs Let_def and_timer r_def event'_def w5_def)
      with Cons.prems
      have w': "w' = task_set_event (cur_task w) (event' AND NOT TASK_EVENT_TIMER) 0 w5"
        and rv: "rv = EC_ERROR_TIMEOUT" by auto
      show ?thesis
        unfolding eq w'
        by (rule exI[of _ "[RegWrite (LM4_I2C_MIMR port) 3, TaskWaitEvent 1000000 r,
               RegWrite (LM4_I2C_MIMR port) 0,
               TaskSetEvent (cur_task w) (event' AND NOT TASK_EVENT_TIMER) 0]"])
           (auto simp: io_defs w5_def bit_or_iff bit_reposted bit_kept event'_def)
    next
      case f: False
      define w6 where "w6 = snd (reg_read (LM4_I2C_MCS port) w5)"
      define i' where "i' = fst (reg_read (LM4_I2C_MCS port) w5)"
      have eq: "wait_idle_loop port i event w = wait_idle_loop port i' event' w6"
        using True f Cons.hyps(2)[symmetric]
        by (subst wait_idle_loop.simps)
           (simp add: io_defs Let_def and_timer r_def event'_def w5_def w6_def i'_def)
      have evs: "evs = event_in w6" by (simp add: w6_def w5_def)
      from Cons.hyps(1)[OF evs _ f, of i'] Cons.prems(1) eq
      obtain es where es: "trace w' = trace w6 @ es" "cur_task w' = cur_task w6"
        "(\<exists>t r. TaskWaitEvent t r \<in> set es \<and> bit r 31) \<longrightarrow>
            wait_idle_loop port i' event' w6 = Inr (EC_ERROR_TIMEOUT, w')"
        "wait_idle_loop port i' event' w6 = Inr (rv, w') \<longrightarrow>
          (\<forall>n. n \<noteq> 28 \<and> n \<noteq> 31 \<and>
                (bit event' n \<or> (\<exists>t r. TaskWaitEvent t r \<in> set es \<and> bit r n))
             \<longrightarrow> bit (pending w' (cur_task w6)) n)"
        by auto
      have r31: "\<not> bit r 31" using f by (simp add: event'_def bit_saved)
      show ?thesis
        unfolding eq
        apply (rule exI[of _ "[RegWrite (LM4_I2C_MIMR port) 3, TaskWaitEvent 1000000 r,
               RegWrite (LM4_I2C_MIMR port) 0, RegRead (LM4_I2C_MCS port) i'] @ es"])
        using es r31
        apply (auto simp: w6_def w5_def io_defs i'_def event'_def bit_saved)
        done
    qed
  qed
qed

text \<open>
  C3. A wait that the timer resumes returns the timeout code, which is not the code of a
  bus fault, and every event bit that a wake-up delivered during the wait, other than the
  timer bit and the I2C completion bit, is pending for the task when \<open>wait_idle\<close>
  returns. \<open>es\<close> are the events the call adds to the trace; a wake-up is a
  \<open>TaskWaitEvent\<close> with the events \<open>task_wait_event\<close> returned.
\<close>

theorem wait_idle_timeout_reposts:
  assumes "wait_idle port w = Inr (rv, w') \<or> wait_idle port w = Inl (NoReturn w')"
      and "trace w' = trace w @ es"
      and "TaskWaitEvent t r \<in> set es"
      and "r AND TASK_EVENT_TIMER \<noteq> 0"
  shows "wait_idle port w = Inr (EC_ERROR_TIMEOUT, w') \<and> EC_ERROR_TIMEOUT \<noteq> EC_ERROR_UNKNOWN \<and>
         (\<forall>t' r' n. TaskWaitEvent t' r' \<in> set es \<and> bit r' n \<and>
                    \<not> bit TASK_EVENT_I2C_IDLE n \<and> \<not> bit TASK_EVENT_TIMER n
              \<longrightarrow> bit (pending w' (task_get_current w)) n)"
proof -
  define i where "i = fst (reg_read (LM4_I2C_MCS port) w)"
  define w1 where "w1 = snd (reg_read (LM4_I2C_MCS port) w)"
  have eq: "wait_idle port w = wait_idle_loop port i 0 w1"
    by (simp add: wait_idle_def i_def w1_def split: prod.splits)
  have tr1: "trace w1 = trace w @ [RegRead (LM4_I2C_MCS port) i]"
    and ct: "cur_task w1 = cur_task w"
    by (simp_all add: w1_def i_def reg_read_def emit_def)
  from wait_idle_loop_events[of port i 0 w1 rv w'] assms(1) eq
  obtain es' where es': "trace w' = trace w1 @ es'"
    "(\<exists>t r. TaskWaitEvent t r \<in> set es' \<and> bit r 31) \<longrightarrow>
         wait_idle_loop port i 0 w1 = Inr (EC_ERROR_TIMEOUT, w')"
    "wait_idle_loop port i 0 w1 = Inr (rv, w') \<longrightarrow>
        (\<forall>n. n \<noteq> 28 \<and> n \<noteq> 31 \<and>
              (bit (0::u32) n \<or> (\<exists>t r. TaskWaitEvent t r \<in> set es' \<and> bit r n))
             \<longrightarrow> bit (pending w' (cur_task w1)) n)"
    by auto
  have es: "es = RegRead (LM4_I2C_MCS port) i # es'"
    using assms(2) es'(1) tr1 by simp
  have mem: "TaskWaitEvent t' r' \<in> set es \<longleftrightarrow> TaskWaitEvent t' r' \<in> set es'" for t' r'
    by (simp add: es)
  have "bit r 31" using assms(4) by (simp add: and_timer)
  with assms(3) mem es'(2) have ret: "wait_idle_loop port i 0 w1 = Inr (EC_ERROR_TIMEOUT, w')"
    by blast
  with assms(1) eq have "rv = EC_ERROR_TIMEOUT \<or> wait_idle port w = Inl (NoReturn w')" by auto
  with ret eq have rv: "wait_idle_loop port i 0 w1 = Inr (rv, w')" by auto
  show ?thesis
    using ret es'(3) rv eq mem ct
    by (auto simp: bit_idle bit_timer task_get_current_def)
qed

theorem wait_idle_timeout_reposts_witness:
  "\<exists>w'. wait_idle 0 world_timeout = Inr (EC_ERROR_TIMEOUT, w') \<and>
        bit (pending w' 2) 2 \<and> bit (pending w' 2) 3"
proof -
  have run: "\<exists>rv w'. wait_idle 0 world_timeout = Inr (rv, w') \<and>
     trace w' = trace world_timeout @
       [RegRead (LM4_I2C_MCS 0) 1, RegWrite (LM4_I2C_MIMR 0) 3, TaskWaitEvent 1000000 4,
        RegWrite (LM4_I2C_MIMR 0) 0, RegRead (LM4_I2C_MCS 0) 1, RegWrite (LM4_I2C_MIMR 0) 3,
        TaskWaitEvent 1000000 2147483656, RegWrite (LM4_I2C_MIMR 0) 0, TaskSetEvent 2 12 0]"
    by (simp add: wait_idle_def world_timeout_def wait_idle_loop.simps io_defs mcs_flags
          TASK_EVENT_TIMER_def TASK_EVENT_I2C_IDLE_def Let_def)
  then obtain rv w' where r: "wait_idle 0 world_timeout = Inr (rv, w')"
    and tr: "trace w' = trace world_timeout @
       [RegRead (LM4_I2C_MCS 0) 1, RegWrite (LM4_I2C_MIMR 0) 3, TaskWaitEvent 1000000 4,
        RegWrite (LM4_I2C_MIMR 0) 0, RegRead (LM4_I2C_MCS 0) 1, RegWrite (LM4_I2C_MIMR 0) 3,
        TaskWaitEvent 1000000 2147483656, RegWrite (LM4_I2C_MIMR 0) 0, TaskSetEvent 2 12 0]"
    by blast
  have ct: "task_get_current world_timeout = 2"
    by (simp add: task_get_current_def world_timeout_def)
  have t: "(2147483656 :: u32) AND TASK_EVENT_TIMER \<noteq> 0"
    by (simp add: TASK_EVENT_TIMER_def)
  have m: "TaskWaitEvent 1000000 2147483656 \<in> set
       [RegRead (LM4_I2C_MCS 0) 1, RegWrite (LM4_I2C_MIMR 0) 3, TaskWaitEvent 1000000 4,
        RegWrite (LM4_I2C_MIMR 0) 0, RegRead (LM4_I2C_MCS 0) 1, RegWrite (LM4_I2C_MIMR 0) 3,
        TaskWaitEvent 1000000 2147483656, RegWrite (LM4_I2C_MIMR 0) 0, TaskSetEvent 2 12 0]"
    by simp
  note th = wait_idle_timeout_reposts[OF disjI1[OF r] tr m t, unfolded ct]
  have p2: "bit (pending w' 2) 2"
    using th[THEN conjunct2, THEN conjunct2, rule_format, of 1000000 4 2]
    by (simp add: bit_idle bit_timer)
  have p3: "bit (pending w' 2) 3"
    using th[THEN conjunct2, THEN conjunct2, rule_format, of 1000000 2147483656 3]
    by (simp add: bit_idle bit_timer)
  from th p2 p3 show ?thesis by blast
qed

section \<open>The transaction engine and the register reads\<close>

lemmas run_defs = i2c_transmit_receive_def port_check_def write_phase_def read_phase_def
  i2c_get_line_levels_def bind_stop_def
  tx_loop.simps rx_loop.simps tx_control_def rx_control_def wait_idle_def wait_idle_loop.simps io_defs mcs_flags
  TASK_EVENT_TIMER_def TASK_EVENT_I2C_IDLE_def I2C_LINE_IDLE_def Let_def
  START_def STOP_def NO_START_def NO_STOP_def mutex_lock_def mutex_unlock_def uninitialised_def

text \<open>
  C9. With \<open>transmit_size = 0\<close> and \<open>receive_size = 0\<close>, \<open>i2c_transmit_receive\<close>
  returns \<open>EC_SUCCESS\<close> at once, for every port, address and flags: the world, and with
  it the trace of register reads and writes and the input streams, is the one it was
  called in, and the receive buffer is untouched.
\<close>

theorem transmit_receive_empty:
  "i2c_transmit_receive ports gl port slave_addr transmit_data 0 receive_data 0 start stop w =
     Inr (EC_SUCCESS, receive_data, w)"
  by (simp add: i2c_transmit_receive_def)

theorem transmit_receive_empty_witness:
  "i2c_transmit_receive ports1 gl1 0 22 None 0 None 0 1 1 world_busy =
     Inr (EC_SUCCESS, None, world_busy) \<and> trace world_busy = []"
  using transmit_receive_empty[of ports1 gl1 0 22 None None 1 1 world_busy]
  by (simp add: world_busy_def)

text \<open>
  C10. When \<open>i2c_read8\<close> or \<open>i2c_read16\<close> returns a code other than \<open>EC_SUCCESS\<close>,
  the value of \<open>*data\<close> after the call (\<open>data'\<close>) is the one before it (\<open>data\<close>).
\<close>

theorem read_keeps_data_on_error:
  "(i2c_read8 ports gl port slave_addr offset data w = Inr (rv, data', w') \<and> rv \<noteq> EC_SUCCESS
      \<longrightarrow> data' = data) \<and>
   (i2c_read16 ports gl port slave_addr offset data w = Inr (rv, data', w') \<and> rv \<noteq> EC_SUCCESS
      \<longrightarrow> data' = data)"
  by (auto simp: i2c_read8_def i2c_read16_def bind_stop_def
           split: prod.splits sum.splits if_splits option.splits list.splits)

theorem read_keeps_data_on_error_witness:
  "(\<exists>rv w'. i2c_read8 ports1 gl1 0 22 5 77 world_busy = Inr (rv, 77, w') \<and> rv \<noteq> EC_SUCCESS) \<and>
   (\<exists>rv w'. i2c_read16 ports1 gl1 0 22 5 77 world_busy = Inr (rv, 77, w') \<and> rv \<noteq> EC_SUCCESS)"
proof -
  have "\<exists>d w'. i2c_read8 ports1 gl1 0 22 5 77 world_busy = Inr (EC_ERROR_TIMEOUT, d, w')"
    by (simp add: i2c_read8_def world_busy_def run_defs)
  then obtain d w1 where r8: "i2c_read8 ports1 gl1 0 22 5 77 world_busy = Inr (EC_ERROR_TIMEOUT, d, w1)"
    by blast
  have "\<exists>d w'. i2c_read16 ports1 gl1 0 22 5 77 world_busy = Inr (EC_ERROR_TIMEOUT, d, w')"
    by (simp add: i2c_read16_def world_busy_def run_defs)
  then obtain e w2 where r16: "i2c_read16 ports1 gl1 0 22 5 77 world_busy = Inr (EC_ERROR_TIMEOUT, e, w2)"
    by blast
  have "d = 77"
    using read_keeps_data_on_error[of ports1 gl1 0 22 5 77 world_busy EC_ERROR_TIMEOUT d w1] r8
    by simp
  moreover have "e = 77"
    using read_keeps_data_on_error[of ports1 gl1 0 22 5 77 world_busy EC_ERROR_TIMEOUT e w2] r16
    by simp
  ultimately show ?thesis using r8 r16 by auto
qed

section \<open>The clock calibrator\<close>

lemma int32_id: "0 \<le> x \<Longrightarrow> x < 2 ^ 31 \<Longrightarrow> int32 x = x"
  unfolding int32_def
  by (rule signed_take_bit_int_eq_self) simp_all

lemma sdiv_pos: "0 \<le> (a::int) \<Longrightarrow> 0 < b \<Longrightarrow> a sdiv b = a div b"
  by (cases "a = 0") (simp_all add: signed_divide_int_def)

lemma div_bounds:
  assumes "0 < (d::int)"
  shows "d * (a div d) \<le> a" and "a < d * (a div d) + d"
proof -
  have "a = d * (a div d) + a mod d" by simp
  moreover have "0 \<le> a mod d" "a mod d < d" using assms by simp_all
  ultimately show "d * (a div d) \<le> a" and "a < d * (a div d) + d" by linarith+
qed

lemma tpr_of_exact:
  assumes "0 < freq" "0 < kbps" "freq + 20000 * kbps < 2 ^ 31"
  shows "tpr_of freq kbps = Some ((freq + 20000 * kbps - 1) div (20000 * kbps) - 1)"
    and "1 \<le> (freq + 20000 * kbps - 1) div (20000 * kbps)"
proof -
  let ?d = "20000 * kbps"
  let ?q = "(freq + ?d - 1) div ?d"
  have dpos: "0 < ?d" using assms by simp
  have k: "int32 (kbps * 1000) = kbps * 1000" using assms by (intro int32_id) auto
  have c: "int32 (2 * (6 + 4)) = 20" by (simp add: int32_id)
  have d: "int32 (20 * (kbps * 1000)) = ?d" using assms by (subst int32_id) auto
  have s: "int32 (freq + ?d) = freq + ?d" using assms by (intro int32_id) auto
  have s1: "int32 (freq + ?d - 1) = freq + ?d - 1" using assms by (intro int32_id) auto
  have nf: "(?d = 0 \<or> (freq + ?d - 1 = - (2 ^ 31) \<and> ?d = - 1)) = False"
    using dpos by simp
  from div_bounds[OF dpos, of "freq + ?d - 1"]
  have b: "?d * ?q \<le> freq + ?d - 1" "freq + ?d - 1 < ?d * ?q + ?d" by simp_all
  show q2: "1 \<le> ?q"
  proof (rule ccontr)
    assume "\<not> 1 \<le> ?q"
    then have "?q \<le> 0" by simp
    then have "?d * ?q \<le> 0" using dpos by (simp add: mult_le_0_iff)
    with b(2) assms(1) show False by linarith
  qed
  have q1: "?q \<le> freq + ?d - 1"
  proof -
    have "1 * ?q \<le> ?d * ?q" using dpos q2 by (intro mult_right_mono) auto
    with b(1) show ?thesis by linarith
  qed
  have q: "int32 ((freq + ?d - 1) sdiv ?d) = ?q"
    using assms q2 q1 by (subst sdiv_pos) (auto intro!: int32_id)
  have r: "int32 (?q - 1) = ?q - 1"
    using q1 q2 assms by (intro int32_id) auto
  show "tpr_of freq kbps = Some (?q - 1)"
    unfolding tpr_of_def Let_def c k d s s1 nf if_False q r ..
qed

lemma ceil_div:
  assumes "0 < (d::int)"
  shows "\<lceil>real_of_int c / real_of_int d\<rceil> = (c + d - 1) div d"
proof (rule ceiling_unique)
  let ?q = "(c + d - 1) div d"
  from div_bounds[OF assms, of "c + d - 1"]
  have b: "d * ?q \<le> c + d - 1" "c + d - 1 < d * ?q + d" by simp_all
  have dr: "0 < real_of_int d" using assms by simp
  have "d * (?q - 1) < c" using b(1) by (simp add: algebra_simps)
  then have "real_of_int (d * (?q - 1)) < real_of_int c" by linarith
  then have "(real_of_int ?q - 1) * real_of_int d < real_of_int c"
    by (simp add: mult.commute)
  then show "real_of_int ?q - 1 < real_of_int c / real_of_int d"
    using dr by (simp only: pos_less_divide_eq)
  have "c \<le> d * ?q" using b(2) by simp
  then have "real_of_int c \<le> real_of_int (d * ?q)" by linarith
  then have "real_of_int c \<le> real_of_int ?q * real_of_int d"
    by (simp add: mult.commute)
  then show "real_of_int c / real_of_int d \<le> real_of_int ?q"
    using dr by (simp only: pos_divide_le_eq)
qed

lemma freq_loop_returns:
  "\<forall>q\<in>set ports. tpr_of freq (p_kbps q) \<noteq> None
     \<Longrightarrow> \<exists>w'. i2c_freq_changed_loop ports freq w = Inr w'"
  by (induction ports arbitrary: w) auto

lemma freq_loop_trace:
  "i2c_freq_changed_loop ports freq w = Inr w' \<Longrightarrow>
     \<exists>es. trace w' = trace w @ es \<and> length es = length ports \<and>
          (\<forall>i<length ports. \<exists>D. tpr_of freq (p_kbps (ports ! i)) = Some D \<and>
               es ! i = RegWrite (LM4_I2C_MTPR (p_port (ports ! i))) (word_of_int D))"
proof (induction ports arbitrary: w)
  case Nil
  then show ?case by simp
next
  case (Cons p ps)
  from Cons.prems obtain D where
    D: "tpr_of freq (p_kbps p) = Some D"
    and r: "i2c_freq_changed_loop ps freq
              (reg_write (LM4_I2C_MTPR (p_port p)) (word_of_int D) w) = Inr w'"
    by (auto split: option.splits)
  from Cons.IH[OF r] obtain es where
    es: "trace w' = trace (reg_write (LM4_I2C_MTPR (p_port p)) (word_of_int D) w) @ es"
        "length es = length ps"
        "\<forall>i<length ps. \<exists>D. tpr_of freq (p_kbps (ps ! i)) = Some D \<and>
               es ! i = RegWrite (LM4_I2C_MTPR (p_port (ps ! i))) (word_of_int D)"
    by blast
  let ?es = "RegWrite (LM4_I2C_MTPR (p_port p)) (word_of_int D) # es"
  have "trace w' = trace w @ ?es" using es(1) by (simp add: reg_write_def emit_def)
  moreover have "length ?es = length (p # ps)" using es(2) by simp
  moreover have "\<exists>D. tpr_of freq (p_kbps ((p # ps) ! i)) = Some D \<and>
               ?es ! i = RegWrite (LM4_I2C_MTPR (p_port ((p # ps) ! i))) (word_of_int D)"
    if "i < length (p # ps)" for i
    using that D es(3) by (cases i) auto
  ultimately show ?case by blast
qed

text \<open>
  C4. Let the system clock be \<open>C > 0\<close>. For a target \<open>F > 0\<close> kHz such that
  \<open>C + 20000 * F\<close> fits a 32-bit \<open>int\<close>, the divisor \<open>D\<close> computed for a port of
  \<open>F\<close> kHz is \<open>ceil (C / (2*(6+4)*F*1000)) - 1\<close>, it is not negative, it satisfies
  \<open>C / (2*(1+D)*10) \<le> F*1000\<close> (the division is exact, not truncated), and no smaller
  non-negative integer does. When every port of the table is in that range
  \<open>i2c_freq_changed\<close> returns \<open>EC_SUCCESS\<close>, and whenever it returns it has written
  to the \<open>MTPR\<close> of each port of the table, in order, the divisor computed for it, and
  nothing else.
\<close>

theorem freq_changed_divisor:
  assumes "0 < clock_freq w"
  shows "((\<forall>q\<in>set ports. 0 < p_kbps q \<and> clock_freq w + 20000 * p_kbps q < 2 ^ 31) \<longrightarrow>
            (\<exists>w'. i2c_freq_changed ports w = Inr (EC_SUCCESS, w'))) \<and>
         (\<forall>rv w'. i2c_freq_changed ports w = Inr (rv, w') \<longrightarrow>
            rv = EC_SUCCESS \<and>
            (\<exists>es. trace w' = trace w @ es \<and> length es = length ports \<and>
               (\<forall>i<length ports. \<exists>D.
                   tpr_of (clock_freq w) (p_kbps (ports ! i)) = Some D \<and>
                   es ! i = RegWrite (LM4_I2C_MTPR (p_port (ports ! i))) (word_of_int D)))) \<and>
         (\<forall>F. 0 < F \<and> clock_freq w + 20000 * F < 2 ^ 31 \<longrightarrow>
            (\<exists>D. tpr_of (clock_freq w) F = Some D \<and>
               D = \<lceil>real_of_int (clock_freq w) / real_of_int (2 * (6 + 4) * (F * 1000))\<rceil> - 1 \<and>
               0 \<le> D \<and>
               real_of_int (clock_freq w) / real_of_int (2 * (1 + D) * 10)
                 \<le> real_of_int (F * 1000) \<and>
               (\<forall>D'. 0 \<le> D' \<and>
                     real_of_int (clock_freq w) / real_of_int (2 * (1 + D') * 10)
                       \<le> real_of_int (F * 1000)
                  \<longrightarrow> D \<le> D')))"
proof (intro conjI allI impI)
  assume a: "\<forall>q\<in>set ports. 0 < p_kbps q \<and> clock_freq w + 20000 * p_kbps q < 2 ^ 31"
  have "\<forall>q\<in>set ports. tpr_of (clock_freq w) (p_kbps q) \<noteq> None"
  proof
    fix q assume "q \<in> set ports"
    with a have "0 < p_kbps q" "clock_freq w + 20000 * p_kbps q < 2 ^ 31" by auto
    from tpr_of_exact(1)[OF assms this] show "tpr_of (clock_freq w) (p_kbps q) \<noteq> None" by simp
  qed
  from freq_loop_returns[OF this, of w] obtain w' where
    "i2c_freq_changed_loop ports (clock_freq w) w = Inr w'" by blast
  then show "\<exists>w'. i2c_freq_changed ports w = Inr (EC_SUCCESS, w')"
    by (simp add: i2c_freq_changed_def clock_get_freq_def bind_stop_def)
next
  fix rv w'
  assume r: "i2c_freq_changed ports w = Inr (rv, w')"
  then show "rv = EC_SUCCESS"
    by (auto simp: i2c_freq_changed_def bind_stop_def split: sum.splits)
  from r have "i2c_freq_changed_loop ports (clock_freq w) w = Inr w'"
    by (auto simp: i2c_freq_changed_def clock_get_freq_def bind_stop_def split: sum.splits)
  from freq_loop_trace[OF this]
  show "\<exists>es. trace w' = trace w @ es \<and> length es = length ports \<and>
               (\<forall>i<length ports. \<exists>D.
                   tpr_of (clock_freq w) (p_kbps (ports ! i)) = Some D \<and>
                   es ! i = RegWrite (LM4_I2C_MTPR (p_port (ports ! i))) (word_of_int D))" .
next
  fix F
  assume f: "0 < F \<and> clock_freq w + 20000 * F < 2 ^ 31"
  let ?C = "clock_freq w"
  let ?d = "20000 * F"
  let ?q = "(?C + ?d - 1) div ?d"
  let ?D = "?q - 1"
  have dpos: "0 < ?d" using f by simp
  from f have f1: "0 < F" and f2: "?C + 20000 * F < 2 ^ 31" by simp_all
  note t = tpr_of_exact[OF assms f1 f2]
  from div_bounds[OF dpos, of "?C + ?d - 1"]
  have b: "?d * ?q \<le> ?C + ?d - 1" "?C + ?d - 1 < ?d * ?q + ?d" by simp_all
  have c: "?D = \<lceil>real_of_int ?C / real_of_int (2 * (6 + 4) * (F * 1000))\<rceil> - 1"
    using ceil_div[OF dpos, of ?C] by simp
  have n: "0 \<le> ?D" using t(2) by simp
  have le: "?C \<le> 20 * (1 + ?D) * (F * 1000)"
    using b(2) by (simp add: algebra_simps)
  have u: "real_of_int ?C / real_of_int (2 * (1 + ?D) * 10) \<le> real_of_int (F * 1000)"
  proof -
    have "0 < real_of_int (2 * (1 + ?D) * 10)" using n by simp
    moreover have "real_of_int ?C \<le> real_of_int (F * 1000) * real_of_int (2 * (1 + ?D) * 10)"
      using le by (simp only: of_int_mult[symmetric] of_int_le_iff) (simp add: algebra_simps)
    ultimately show ?thesis by (simp only: pos_divide_le_eq)
  qed
  have m: "?D \<le> D'"
    if "0 \<le> D' \<and> real_of_int ?C / real_of_int (2 * (1 + D') * 10) \<le> real_of_int (F * 1000)"
    for D'
  proof -
    from that have t1: "0 \<le> D'"
      and t2: "real_of_int ?C / real_of_int (2 * (1 + D') * 10) \<le> real_of_int (F * 1000)"
      by simp_all
    have "0 < real_of_int (2 * (1 + D') * 10)" using t1 by simp
    with t2 have "real_of_int ?C \<le> real_of_int (F * 1000) * real_of_int (2 * (1 + D') * 10)"
      by (simp only: pos_divide_le_eq)
    then have "?C \<le> (F * 1000) * (2 * (1 + D') * 10)"
      by (simp only: of_int_mult[symmetric] of_int_le_iff)
    then have "?C \<le> ?d * (1 + D')" by (simp add: algebra_simps)
    with b(1) have "?d * ?q < ?d * (1 + D') + ?d" by linarith
    then have "?d * ?q < ?d * (2 + D')" by (simp add: algebra_simps)
    then have "?q < 2 + D'" using dpos by (simp only: mult_less_cancel_left_pos)
    then show ?thesis by simp
  qed
  show "\<exists>D. tpr_of ?C F = Some D \<and>
               D = \<lceil>real_of_int ?C / real_of_int (2 * (6 + 4) * (F * 1000))\<rceil> - 1 \<and>
               0 \<le> D \<and>
               real_of_int ?C / real_of_int (2 * (1 + D) * 10) \<le> real_of_int (F * 1000) \<and>
               (\<forall>D'. 0 \<le> D' \<and>
                     real_of_int ?C / real_of_int (2 * (1 + D') * 10) \<le> real_of_int (F * 1000)
                  \<longrightarrow> D \<le> D')"
    using t(1) c n u m by (intro exI[of _ ?D]) blast
qed

theorem freq_changed_divisor_witness:
  "(\<exists>w'. i2c_freq_changed ports1 world_idle = Inr (EC_SUCCESS, w') \<and>
         trace w' = [RegWrite (LM4_I2C_MTPR 0) 33]) \<and>
   tpr_of 66666667 100 = Some 33 \<and>
   real_of_int 66666667 / real_of_int (2 * (1 + 33) * 10) \<le> real_of_int (100 * 1000)"
proof -
  have c: "clock_freq world_idle = 66666667"
    by (simp add: world_idle_def)
  have h: "0 < clock_freq world_idle" by (simp add: c)
  note th = freq_changed_divisor[OF h, of ports1]
  have rng: "\<forall>q\<in>set ports1. 0 < p_kbps q \<and> clock_freq world_idle + 20000 * p_kbps q < 2 ^ 31"
    by (simp add: ports1_def c)
  from th[THEN conjunct1, THEN mp, OF rng] obtain w1 where
    r: "i2c_freq_changed ports1 world_idle = Inr (EC_SUCCESS, w1)" by blast
  have f: "(0::int) < 100 \<and> clock_freq world_idle + 20000 * 100 < 2 ^ 31" by (simp add: c)
  from th[THEN conjunct2, THEN conjunct2, rule_format, OF f] obtain D where
    D: "tpr_of 66666667 100 = Some D"
       "D = \<lceil>real_of_int 66666667 / real_of_int (2 * (6 + 4) * (100 * 1000))\<rceil> - 1"
       "real_of_int 66666667 / real_of_int (2 * (1 + D) * 10) \<le> real_of_int (100 * 1000)"
    unfolding c by blast
  have "\<lceil>real_of_int 66666667 / real_of_int (2 * (6 + 4) * (100 * 1000))\<rceil> = 34"
    by (rule ceiling_unique) simp_all
  with D(2) have D33: "D = 33" by simp
  from th[THEN conjunct2, THEN conjunct1, rule_format, OF r] obtain es where
    es: "trace w1 = trace world_idle @ es" "length es = length ports1"
        "\<forall>i<length ports1. \<exists>D. tpr_of (clock_freq world_idle) (p_kbps (ports1 ! i)) = Some D \<and>
               es ! i = RegWrite (LM4_I2C_MTPR (p_port (ports1 ! i))) (word_of_int D)"
    by blast
  from es(3)[rule_format, of 0] D(1) D33
  have e0: "es ! 0 = RegWrite (LM4_I2C_MTPR 0) 33"
    by (simp add: ports1_def c)
  have "length es = 1" using es(2) by (simp add: ports1_def)
  with e0 have "es = [RegWrite (LM4_I2C_MTPR 0) 33]"
    by (cases es) simp_all
  with es(1) have tr: "trace w1 = [RegWrite (LM4_I2C_MTPR 0) 33]"
    by (simp add: world_idle_def)
  from r tr D(1) D(3) D33 show ?thesis by blast
qed

text \<open>Where the sum overflows the claim fails: at a clock of \<open>2^31 - 1\<close> Hz and 100 kHz the
  divisor is negative.\<close>

theorem freq_changed_divisor_counterexample:
  "(0::int) < 2147483647 \<and> (0::int) < 100 \<and> tpr_of 2147483647 100 = Some (- 1073) \<and>
   (- 1073 :: int) < 0"
  by code_simp

section \<open>Bus recovery: i2c_unwedge\<close>

lemma last_level_append:
  "last_level g (a @ b) = (case last_level g b of Some v \<Rightarrow> Some v | None \<Rightarrow> last_level g a)"
  by (induction a) (auto split: option.splits)

lemmas gpio_defs = gpio_set_level_def gpio_get_level_def gpio_set_flags_def
  gpio_set_alternate_function_def udelay_def usleep_def clock_wait_cycles_def
  mutex_lock_def mutex_unlock_def cprintf_def emit_def

lemma raw_get_pin_trace:
  assumes "raw_get_pin g w = (v, w')"
  shows "\<exists>es. trace w' = trace w @ es \<and> (\<forall>e\<in>set es. quiet e) \<and> last_level g es = Some v \<and>
              (\<forall>g'. g' \<noteq> g \<longrightarrow> last_level g' es = None)"
proof (cases "gpio_in w g 0 = 0")
  case True
  with assms have "trace w' = trace w @ [GpioGetLevel g 0]" "v = 0"
    by (auto simp: raw_get_pin_def gpio_defs)
  then show ?thesis by auto
next
  case False
  with assms have "trace w' = trace w @ [GpioGetLevel g (gpio_in w g 0), GpioSetFlags g [GPIO_INPUT],
       GpioGetLevel g v, GpioSetFlags g [GPIO_OUTPUT, GPIO_OPEN_DRAIN]]"
    by (auto simp: raw_get_pin_def gpio_defs)
  then show ?thesis by auto
qed

lemma quiet_no_delay: "\<forall>e\<in>set es. quiet e \<Longrightarrow> filter is_delay es = []"
  by (auto simp: filter_empty_conv elim!: quiet.elims)

lemma raw_get_scl_eq:
  "get_scl_from_i2c_port ports port = Inr (Inr scl) \<Longrightarrow>
     i2c_raw_get_scl ports port w = Inr (raw_get_pin scl w)"
  by (simp add: i2c_raw_get_scl_def)

lemma raw_get_sda_eq:
  "get_sda_from_i2c_port ports port = Inr (Inr sda) \<Longrightarrow>
     i2c_raw_get_sda ports port w = Inr (raw_get_pin sda w)"
  by (simp add: i2c_raw_get_sda_def)

lemma raw_set_scl_eq:
  "get_scl_from_i2c_port ports port = Inr (Inr scl) \<Longrightarrow>
     i2c_raw_set_scl ports port v w = Inr (gpio_set_level scl v w)"
  by (simp add: i2c_raw_set_scl_def)

lemma raw_set_sda_eq:
  "get_sda_from_i2c_port ports port = Inr (Inr sda) \<Longrightarrow>
     i2c_raw_set_sda ports port v w = Inr (gpio_set_level sda v w)"
  by (simp add: i2c_raw_set_sda_def)

lemma unwedge_scl_loop_trace:
  assumes H: "get_scl_from_i2c_port ports port = Inr (Inr scl)"
  shows "\<exists>b w' es. unwedge_scl_loop ports port i w = Inr (b, w') \<and> trace w' = trace w @ es \<and>
           length (filter is_delay es) \<le> UNWEDGE_SCL_ATTEMPTS - i \<and>
           (\<forall>e\<in>set es. quiet e \<or> is_delay e) \<and>
           (b \<longrightarrow> (\<exists>v. last_level scl es = Some v \<and> v \<noteq> 0)) \<and>
           (\<not> b \<longrightarrow> last_level scl es = Some 0 \<or> last_level scl es = None) \<and>
           (\<not> b \<longrightarrow> Cprintf Unwedge_SCL_held_low \<in> set es) \<and>
           (\<forall>g'. g' \<noteq> scl \<longrightarrow> last_level g' es = None)"
proof (induction n \<equiv> "UNWEDGE_SCL_ATTEMPTS - i" arbitrary: i w)
  case 0
  then have "unwedge_scl_loop ports port i w = Inr (False, cprintf Unwedge_SCL_held_low w)"
    by (subst unwedge_scl_loop.simps) simp
  moreover have "trace (cprintf Unwedge_SCL_held_low w) = trace w @ [Cprintf Unwedge_SCL_held_low]"
    by (simp add: gpio_defs)
  ultimately show ?case by auto
next
  case (Suc n)
  then have lt: "\<not> i \<ge> UNWEDGE_SCL_ATTEMPTS" by simp
  obtain v w1 where g: "raw_get_pin scl (udelay I2C_BITBANG_DELAY_US w) = (v, w1)"
    by (cases "raw_get_pin scl (udelay I2C_BITBANG_DELAY_US w)")
  from raw_get_pin_trace[OF g] obtain es1 where
    es1: "trace w1 = trace w @ Udelay I2C_BITBANG_DELAY_US # es1" "\<forall>e\<in>set es1. quiet e"
         "last_level scl es1 = Some v" "\<forall>g'. g' \<noteq> scl \<longrightarrow> last_level g' es1 = None"
    by (auto simp: gpio_defs)
  show ?case
  proof (cases "v \<noteq> 0")
    case True
    have "unwedge_scl_loop ports port i w = Inr (True, w1)"
      using lt g True
      by (subst unwedge_scl_loop.simps) (simp add: raw_get_scl_eq[OF H] bind_stop_def)
    with es1 True lt quiet_no_delay[OF es1(2)] show ?thesis
      by (intro exI[of _ True] exI[of _ w1] exI[of _ "Udelay I2C_BITBANG_DELAY_US # es1"])
         (auto simp: last_level_append[of _ "[_]", simplified])
  next
    case False
    have eq: "unwedge_scl_loop ports port i w = unwedge_scl_loop ports port (Suc i) w1"
      using lt g False
      by (subst unwedge_scl_loop.simps) (simp add: raw_get_scl_eq[OF H] bind_stop_def)
    have n: "n = UNWEDGE_SCL_ATTEMPTS - Suc i" using Suc.hyps(2) by simp
    from Suc.hyps(1)[OF n, of w1] obtain b w' es where
      r: "unwedge_scl_loop ports port (Suc i) w1 = Inr (b, w')" "trace w' = trace w1 @ es"
         "length (filter is_delay es) \<le> UNWEDGE_SCL_ATTEMPTS - Suc i"
         "\<forall>e\<in>set es. quiet e \<or> is_delay e"
         "b \<longrightarrow> (\<exists>v. last_level scl es = Some v \<and> v \<noteq> 0)"
         "\<not> b \<longrightarrow> last_level scl es = Some 0 \<or> last_level scl es = None"
         "\<not> b \<longrightarrow> Cprintf Unwedge_SCL_held_low \<in> set es"
         "\<forall>g'. g' \<noteq> scl \<longrightarrow> last_level g' es = None"
      by blast
    have cnt: "length (filter is_delay (Udelay I2C_BITBANG_DELAY_US # es1 @ es)) \<le> UNWEDGE_SCL_ATTEMPTS - i"
    proof -
      show ?thesis using r(3) lt quiet_no_delay[OF es1(2)] by simp
    qed
    show ?thesis
      unfolding eq
      apply (intro exI[of _ b] exI[of _ w'] exI[of _ "Udelay I2C_BITBANG_DELAY_US # es1 @ es"])
      using r es1 False cnt
      apply (auto simp: last_level_append split: option.splits)
      done
  qed
qed

lemma quiet_raw: "quiet e \<Longrightarrow> raw_event e"
  by (cases e) auto

lemma delay_raw: "is_delay e \<Longrightarrow> raw_event e"
  by (cases e) auto

lemma quiet_not_low: "\<forall>e\<in>set es. quiet e \<Longrightarrow> clock_low_count scl es = 0"
  by (auto simp: clock_low_count_def filter_empty_conv)

lemma clock_low_count_append [simp]:
  "clock_low_count scl (a @ b) = clock_low_count scl a + clock_low_count scl b"
  by (simp add: clock_low_count_def)

lemma clock_low_count_Nil [simp]: "clock_low_count scl [] = 0"
  by (simp add: clock_low_count_def)

lemma clock_low_count_Cons [simp]:
  "clock_low_count scl (e # es) =
     (if e = GpioSetLevel scl 0 then 1 else 0) + clock_low_count scl es"
  by (simp add: clock_low_count_def)

lemma quiet_not_set: "\<forall>e\<in>set es. quiet e \<Longrightarrow> filter (\<lambda>e. e = GpioSetLevel g v) es = []"
  by (auto simp: filter_empty_conv)

lemma unwedge_clock_loop_trace:
  assumes Hscl: "get_scl_from_i2c_port ports port = Inr (Inr scl)"
      and Hsda: "get_sda_from_i2c_port ports port = Inr (Inr sda)"
      and ne: "scl \<noteq> sda"
  shows "\<exists>w' es. unwedge_clock_loop ports port j w = Inr w' \<and> trace w' = trace w @ es \<and>
           clock_low_count scl es \<le> 9 - j \<and> (\<forall>e\<in>set es. raw_event e) \<and>
           filter (\<lambda>e. e = GpioSetLevel sda 0) es = []"
proof (induction n \<equiv> "9 - j" arbitrary: j w)
  case 0
  then have "unwedge_clock_loop ports port j w = Inr w"
    by (subst unwedge_clock_loop.simps) simp
  then show ?case by (simp add: clock_low_count_def)
next
  case (Suc n)
  then have lt: "j < 9" by simp
  obtain v w1 where g: "raw_get_pin sda w = (v, w1)"
    by (cases "raw_get_pin sda w")
  from raw_get_pin_trace[OF g] obtain es1 where
    es1: "trace w1 = trace w @ es1" "\<forall>e\<in>set es1. quiet e"
    by auto
  show ?case
  proof (cases "v \<noteq> 0")
    case True
    have "unwedge_clock_loop ports port j w = Inr w1"
      using lt g True
      by (subst unwedge_clock_loop.simps) (simp add: raw_get_sda_eq[OF Hsda] bind_stop_def)
    with es1 quiet_not_low[OF es1(2), of scl] quiet_not_set[OF es1(2), of sda 0] show ?thesis
      by (auto intro: quiet_raw)
  next
    case False
    define w4 where "w4 = udelay I2C_BITBANG_DELAY_US (gpio_set_level scl 1
                            (udelay I2C_BITBANG_DELAY_US (gpio_set_level scl 0 w1)))"
    have tr4: "trace w4 = trace w @ es1 @ [GpioSetLevel scl 0, Udelay I2C_BITBANG_DELAY_US,
                 GpioSetLevel scl 1, Udelay I2C_BITBANG_DELAY_US]"
      by (simp add: w4_def gpio_defs es1(1))
    have eq: "unwedge_clock_loop ports port j w = unwedge_clock_loop ports port (Suc j) w4"
      using lt g False
      by (subst unwedge_clock_loop.simps)
         (simp add: raw_get_sda_eq[OF Hsda] raw_set_scl_eq[OF Hscl] bind_stop_def w4_def)
    have n: "n = 9 - Suc j" using Suc.hyps(2) by simp
    from Suc.hyps(1)[OF n, of w4] obtain w' es where
      r: "unwedge_clock_loop ports port (Suc j) w4 = Inr w'" "trace w' = trace w4 @ es"
         "clock_low_count scl es \<le> 9 - Suc j" "\<forall>e\<in>set es. raw_event e"
         "filter (\<lambda>e. e = GpioSetLevel sda 0) es = []"
      by blast
    have c: "clock_low_count scl [GpioSetLevel scl 0, Udelay I2C_BITBANG_DELAY_US,
                 GpioSetLevel scl 1, Udelay I2C_BITBANG_DELAY_US] = 1"
      by (simp add: clock_low_count_def)
    show ?thesis
      unfolding eq
      apply (intro exI[of _ w'] exI[of _ "es1 @ [GpioSetLevel scl 0, Udelay I2C_BITBANG_DELAY_US,
                 GpioSetLevel scl 1, Udelay I2C_BITBANG_DELAY_US] @ es"])
      using r es1 tr4 lt c quiet_not_low[OF es1(2), of scl] quiet_not_set[OF es1(2), of sda 0] ne
      apply (auto intro: quiet_raw)
      done
  qed
qed

lemma unwedge_sda_attempt_trace:
  assumes Hscl: "get_scl_from_i2c_port ports port = Inr (Inr scl)"
      and Hsda: "get_sda_from_i2c_port ports port = Inr (Inr sda)"
      and ne: "scl \<noteq> sda"
  shows "\<exists>b w' es. unwedge_sda_attempt ports port w = Inr (b, w') \<and> trace w' = trace w @ es \<and>
           clock_low_count scl es \<le> 9 \<and> (\<forall>e\<in>set es. raw_event e) \<and>
           length (filter (\<lambda>e. e = GpioSetLevel sda 0) es) = 1"
proof -
  define w1 where "w1 = udelay I2C_BITBANG_DELAY_US (gpio_set_level scl 1 w)"
  from unwedge_clock_loop_trace[OF Hscl Hsda ne, of 0 w1] obtain w2 es2 where
    c: "unwedge_clock_loop ports port 0 w1 = Inr w2" "trace w2 = trace w1 @ es2"
       "clock_low_count scl es2 \<le> 9" "\<forall>e\<in>set es2. raw_event e"
       "filter (\<lambda>e. e = GpioSetLevel sda 0) es2 = []"
    by auto
  define w5 where "w5 = udelay I2C_BITBANG_DELAY_US (gpio_set_level sda 1
                          (udelay I2C_BITBANG_DELAY_US (gpio_set_level sda 0 w2)))"
  obtain v w6 where g: "raw_get_pin sda w5 = (v, w6)"
    by (cases "raw_get_pin sda w5")
  from raw_get_pin_trace[OF g] obtain es6 where
    es6: "trace w6 = trace w5 @ es6" "\<forall>e\<in>set es6. quiet e"
    by auto
  obtain v' w7 where g': "raw_get_pin scl w6 = (v', w7)"
    by (cases "raw_get_pin scl w6")
  from raw_get_pin_trace[OF g'] obtain es7 where
    es7: "trace w7 = trace w6 @ es7" "\<forall>e\<in>set es7. quiet e"
    by auto
  let ?a = "[GpioSetLevel scl 1, Udelay I2C_BITBANG_DELAY_US]"
  let ?b = "[GpioSetLevel sda 0, Udelay I2C_BITBANG_DELAY_US, GpioSetLevel sda 1,
             Udelay I2C_BITBANG_DELAY_US]"
  have tr6: "trace w6 = trace w @ ?a @ es2 @ ?b @ es6"
    by (simp add: es6(1) w5_def c(2) w1_def gpio_defs)
  have cnt: "clock_low_count scl (?a @ es2 @ ?b @ es6) \<le> 9"
    using c(3) ne quiet_not_low[OF es6(2), of scl]
    by (simp add: clock_low_count_def)
  have raw6: "\<forall>e\<in>set (?a @ es2 @ ?b @ es6). raw_event e"
    using c(4) es6(2) by (auto intro: quiet_raw)
  have st6: "length (filter (\<lambda>e. e = GpioSetLevel sda 0) (?a @ es2 @ ?b @ es6)) = 1"
    using c(5) ne quiet_not_set[OF es6(2), of sda 0] by simp
  have eq: "unwedge_sda_attempt ports port w =
              (if v \<noteq> 0 then Inr (v' \<noteq> 0, w7) else Inr (False, w6))"
    unfolding unwedge_sda_attempt_def
    by (simp add: raw_set_scl_eq[OF Hscl] raw_set_sda_eq[OF Hsda] raw_get_sda_eq[OF Hsda]
          raw_get_scl_eq[OF Hscl] bind_stop_def c(1) w1_def[symmetric] w5_def[symmetric] g g')
  show ?thesis
  proof (cases "v \<noteq> 0")
    case True
    have "trace w7 = trace w @ (?a @ es2 @ ?b @ es6) @ es7"
      using tr6 es7(1) by simp
    moreover have "clock_low_count scl ((?a @ es2 @ ?b @ es6) @ es7) \<le> 9"
      using cnt quiet_not_low[OF es7(2), of scl] by (simp only: clock_low_count_append)
    moreover have "\<forall>e\<in>set ((?a @ es2 @ ?b @ es6) @ es7). raw_event e"
      using raw6 es7(2) by (auto intro: quiet_raw)
    moreover have "length (filter (\<lambda>e. e = GpioSetLevel sda 0) ((?a @ es2 @ ?b @ es6) @ es7)) = 1"
      using st6 quiet_not_set[OF es7(2), of sda 0] by (simp only: filter_append length_append) simp
    ultimately show ?thesis using eq True by (intro exI conjI) auto
  next
    case False
    with eq tr6 cnt raw6 st6 show ?thesis by (intro exI conjI) auto
  qed
qed

lemma unwedge_sda_loop_trace:
  assumes Hscl: "get_scl_from_i2c_port ports port = Inr (Inr scl)"
      and Hsda: "get_sda_from_i2c_port ports port = Inr (Inr sda)"
      and ne: "scl \<noteq> sda"
  shows "\<exists>w' attempts. unwedge_sda_loop ports port i w = Inr w' \<and>
           trace w' = trace w @ concat attempts \<and>
           length attempts \<le> UNWEDGE_SDA_ATTEMPTS - i \<and>
           (\<forall>a\<in>set attempts. clock_low_count scl a \<le> 9 \<and> (\<forall>e\<in>set a. raw_event e) \<and>
               length (filter (\<lambda>e. e = GpioSetLevel sda 0) a) = 1)"
proof (induction n \<equiv> "UNWEDGE_SDA_ATTEMPTS - i" arbitrary: i w)
  case 0
  then have "unwedge_sda_loop ports port i w = Inr w"
    by (subst unwedge_sda_loop.simps) simp
  then show ?case by (intro exI[of _ w] exI[of _ "[]"]) simp
next
  case (Suc n)
  then have lt: "i < UNWEDGE_SDA_ATTEMPTS" by simp
  from unwedge_sda_attempt_trace[OF Hscl Hsda ne, of w] obtain b w1 es where
    a: "unwedge_sda_attempt ports port w = Inr (b, w1)" "trace w1 = trace w @ es"
       "clock_low_count scl es \<le> 9" "\<forall>e\<in>set es. raw_event e"
       "length (filter (\<lambda>e. e = GpioSetLevel sda 0) es) = 1"
    by blast
  show ?case
  proof (cases b)
    case True
    have "unwedge_sda_loop ports port i w = Inr w1"
      using lt a(1) True by (subst unwedge_sda_loop.simps) (simp add: bind_stop_def)
    with a lt show ?thesis
      by (intro exI[of _ w1] exI[of _ "[es]"]) simp
  next
    case False
    have eq: "unwedge_sda_loop ports port i w = unwedge_sda_loop ports port (Suc i) w1"
      using lt a(1) False by (subst unwedge_sda_loop.simps) (simp add: bind_stop_def)
    have n: "n = UNWEDGE_SDA_ATTEMPTS - Suc i" using Suc.hyps(2) by simp
    from Suc.hyps(1)[OF n, of w1] obtain w' attempts where
      r: "unwedge_sda_loop ports port (Suc i) w1 = Inr w'" "trace w' = trace w1 @ concat attempts"
         "length attempts \<le> UNWEDGE_SDA_ATTEMPTS - Suc i"
         "\<forall>a\<in>set attempts. clock_low_count scl a \<le> 9 \<and> (\<forall>e\<in>set a. raw_event e) \<and>
               length (filter (\<lambda>e. e = GpioSetLevel sda 0) a) = 1"
      by blast
    show ?thesis
      unfolding eq
      using r a lt
      by (intro exI[of _ w'] exI[of _ "es # attempts"]) auto
  qed
qed

lemma raw_mode_eq:
  assumes "get_scl_from_i2c_port ports port = Inr (Inr scl)"
      and "get_sda_from_i2c_port ports port = Inr (Inr sda)"
  shows "i2c_raw_mode ports gl port enable w =
           Inr (EC_SUCCESS, if enable \<noteq> 0 then raw_mode_enter gl sda scl w
                            else raw_mode_exit gl sda scl w)"
  using assms by (simp add: i2c_raw_mode_def)

lemma unwedge_done_eq:
  assumes "get_scl_from_i2c_port ports port = Inr (Inr scl)"
      and "get_sda_from_i2c_port ports port = Inr (Inr sda)"
  shows "unwedge_done ports gl port ret w = Inr (ret, raw_mode_exit gl sda scl w)"
  by (simp add: unwedge_done_def raw_mode_eq[OF assms] bind_stop_def)

text \<open>The data part of the recovery: either the data line reads high at once, or the
  attempts run and both lines are sampled afterwards.\<close>

lemma unwedge_data_trace:
  assumes Hscl: "get_scl_from_i2c_port ports port = Inr (Inr scl)"
      and Hsda: "get_sda_from_i2c_port ports port = Inr (Inr sda)"
      and ne: "scl \<noteq> sda"
  shows "\<exists>ret w2 pre attempts tail.
           unwedge_data ports gl port w = Inr (ret, raw_mode_exit gl sda scl w2) \<and>
           trace w2 = trace w @ pre @ concat attempts @ tail \<and>
           (\<forall>e\<in>set pre. quiet e) \<and> (\<forall>e\<in>set tail. quiet e) \<and>
           length attempts \<le> UNWEDGE_SDA_ATTEMPTS \<and>
           (\<forall>a\<in>set attempts. clock_low_count scl a \<le> 9 \<and> (\<forall>e\<in>set a. raw_event e) \<and>
               length (filter (\<lambda>e. e = GpioSetLevel sda 0) a) = 1) \<and>
           ((attempts = [] \<and> tail = [] \<and> ret = EC_SUCCESS \<and> last_level scl pre = None \<and>
             (\<exists>a. last_level sda pre = Some a \<and> a \<noteq> 0)) \<or>
            (\<exists>a b. last_level sda tail = Some a \<and> last_level scl tail = Some b \<and>
                   ret = (if a \<noteq> 0 \<and> b \<noteq> 0 then EC_SUCCESS else EC_ERROR_UNKNOWN) \<and>
                   (a = 0 \<longrightarrow> Cprintf Unwedge_SDA_still_low \<in> set tail) \<and>
                   (b = 0 \<longrightarrow> Cprintf Unwedge_SCL_still_low \<in> set tail)))"
proof -
  obtain v w4 where g: "raw_get_pin sda w = (v, w4)"
    by (cases "raw_get_pin sda w")
  from raw_get_pin_trace[OF g] obtain es4 where
    es4: "trace w4 = trace w @ es4" "\<forall>e\<in>set es4. quiet e" "last_level sda es4 = Some v"
         "\<forall>g'. g' \<noteq> sda \<longrightarrow> last_level g' es4 = None"
    by auto
  show ?thesis
  proof (cases "v \<noteq> 0")
    case True
    have "unwedge_data ports gl port w = Inr (EC_SUCCESS, raw_mode_exit gl sda scl w4)"
      using True g
      by (simp add: unwedge_data_def raw_get_sda_eq[OF Hsda] bind_stop_def
            unwedge_done_eq[OF Hscl Hsda])
    with es4 True ne show ?thesis
      by (intro exI[of _ EC_SUCCESS] exI[of _ w4])
         (rule exI[of _ es4], rule exI[of _ "[]"], rule exI[of _ "[]"], simp)
  next
    case False
    from unwedge_sda_loop_trace[OF Hscl Hsda ne, of 0 "cprintf Unwedge_SDA_held_low w4"]
    obtain w5 attempts where
      l: "unwedge_sda_loop ports port 0 (cprintf Unwedge_SDA_held_low w4) = Inr w5"
         "trace w5 = trace (cprintf Unwedge_SDA_held_low w4) @ concat attempts"
         "length attempts \<le> UNWEDGE_SDA_ATTEMPTS"
         "\<forall>a\<in>set attempts. clock_low_count scl a \<le> 9 \<and> (\<forall>e\<in>set a. raw_event e) \<and>
               length (filter (\<lambda>e. e = GpioSetLevel sda 0) a) = 1"
      by auto
    obtain a w6 where ga: "raw_get_pin sda w5 = (a, w6)"
      by (cases "raw_get_pin sda w5")
    from raw_get_pin_trace[OF ga] obtain es6 where
      es6: "trace w6 = trace w5 @ es6" "\<forall>e\<in>set es6. quiet e" "last_level sda es6 = Some a"
           "\<forall>g'. g' \<noteq> sda \<longrightarrow> last_level g' es6 = None"
      by auto
    define w7 where "w7 = (if a = 0 then cprintf Unwedge_SDA_still_low w6 else w6)"
    define m7 where "m7 = (if a = 0 then [Cprintf Unwedge_SDA_still_low] else [])"
    have tr7: "trace w7 = trace w6 @ m7" by (simp add: w7_def m7_def gpio_defs)
    obtain b w8 where gb: "raw_get_pin scl w7 = (b, w8)"
      by (cases "raw_get_pin scl w7")
    from raw_get_pin_trace[OF gb] obtain es8 where
      es8: "trace w8 = trace w7 @ es8" "\<forall>e\<in>set es8. quiet e" "last_level scl es8 = Some b"
           "\<forall>g'. g' \<noteq> scl \<longrightarrow> last_level g' es8 = None"
      by auto
    define w9 where "w9 = (if b = 0 then cprintf Unwedge_SCL_still_low w8 else w8)"
    define m9 where "m9 = (if b = 0 then [Cprintf Unwedge_SCL_still_low] else [])"
    have tr9: "trace w9 = trace w8 @ m9" by (simp add: w9_def m9_def gpio_defs)
    define ret where "ret = (if a \<noteq> 0 \<and> b \<noteq> 0 then EC_SUCCESS else EC_ERROR_UNKNOWN)"
    have eq: "unwedge_data ports gl port w = Inr (ret, raw_mode_exit gl sda scl w9)"
      using False g l(1) ga gb
      by (simp add: unwedge_data_def raw_get_sda_eq[OF Hsda] raw_get_scl_eq[OF Hscl] bind_stop_def
            unwedge_done_eq[OF Hscl Hsda] Let_def w7_def[symmetric] w9_def ret_def)
    let ?pre = "es4 @ [Cprintf Unwedge_SDA_held_low]"
    let ?tail = "es6 @ m7 @ es8 @ m9"
    have tr: "trace w9 = trace w @ ?pre @ concat attempts @ ?tail"
      by (simp add: tr9 es8(1) tr7 es6(1) l(2) es4(1) gpio_defs)
    have q1: "\<forall>e\<in>set ?pre. quiet e" using es4(2) by auto
    have q2: "\<forall>e\<in>set ?tail. quiet e" using es6(2) es8(2) by (auto simp: m7_def m9_def)
    have l1: "last_level sda ?tail = Some a"
      using es6(3) es8(4) ne by (auto simp: last_level_append m7_def m9_def)
    have l2: "last_level scl ?tail = Some b"
      using es8(3) by (auto simp: last_level_append m7_def m9_def)
    have c1: "a = 0 \<longrightarrow> Cprintf Unwedge_SDA_still_low \<in> set ?tail" by (simp add: m7_def)
    have c2: "b = 0 \<longrightarrow> Cprintf Unwedge_SCL_still_low \<in> set ?tail" by (simp add: m9_def)
    show ?thesis
      apply (rule exI[of _ ret], rule exI[of _ w9], rule exI[of _ ?pre], rule exI[of _ attempts],
             rule exI[of _ ?tail])
      apply (intro conjI)
            apply (rule eq)
           apply (rule tr)
          apply (rule q1)
         apply (rule q2)
        apply (rule l(3))
       apply (rule l(4))
      apply (rule disjI2)
      apply (rule exI[of _ a], rule exI[of _ b])
      apply (intro conjI)
          apply (rule l1)
         apply (rule l2)
        apply (rule ret_def)
       apply (rule c1)
      apply (rule c2)
      done
  qed
qed

text \<open>The whole recovery, for a port whose pins are defined and distinct. \<open>wait\<close> is the
  clock-stretch wait with the first samples, \<open>attempts\<close> are the passes of the
  data-release loop and \<open>tail\<close> the final samples.\<close>

lemma i2c_unwedge_trace:
  assumes Hscl: "get_scl_from_i2c_port ports port = Inr (Inr scl)"
      and Hsda: "get_sda_from_i2c_port ports port = Inr (Inr sda)"
      and ne: "scl \<noteq> sda"
  shows "\<exists>ret w2 wait attempts tail.
           i2c_unwedge ports gl port w = Inr (ret, raw_mode_exit gl sda scl w2) \<and>
           trace w2 = trace (raw_mode_enter gl sda scl w) @ wait @ concat attempts @ tail \<and>
           length (filter is_delay wait) \<le> UNWEDGE_SCL_ATTEMPTS \<and>
           (\<forall>e\<in>set wait. quiet e \<or> is_delay e) \<and> (\<forall>e\<in>set tail. quiet e) \<and>
           length attempts \<le> UNWEDGE_SDA_ATTEMPTS \<and>
           (\<forall>a\<in>set attempts. clock_low_count scl a \<le> 9 \<and> (\<forall>e\<in>set a. raw_event e) \<and>
               length (filter (\<lambda>e. e = GpioSetLevel sda 0) a) = 1) \<and>
           (ret = EC_SUCCESS \<or> ret = EC_ERROR_UNKNOWN) \<and>
           (ret = EC_SUCCESS \<longleftrightarrow>
              (\<exists>a. last_level scl (wait @ concat attempts @ tail) = Some a \<and> a \<noteq> 0) \<and>
              (\<exists>b. last_level sda (wait @ concat attempts @ tail) = Some b \<and> b \<noteq> 0)) \<and>
           (last_level scl (wait @ concat attempts @ tail) = Some 0 \<longrightarrow>
              Cprintf Unwedge_SCL_held_low \<in> set (wait @ concat attempts @ tail) \<or>
              Cprintf Unwedge_SCL_still_low \<in> set (wait @ concat attempts @ tail)) \<and>
           (last_level sda (wait @ concat attempts @ tail) = Some 0 \<longrightarrow>
              Cprintf Unwedge_SDA_still_low \<in> set (wait @ concat attempts @ tail))"
proof -
  define w1 where "w1 = raw_mode_enter gl sda scl w"
  obtain v0 w2 where g: "raw_get_pin scl w1 = (v0, w2)"
    by (cases "raw_get_pin scl w1")
  from raw_get_pin_trace[OF g] obtain es0 where
    es0: "trace w2 = trace w1 @ es0" "\<forall>e\<in>set es0. quiet e" "last_level scl es0 = Some v0"
         "\<forall>g'. g' \<noteq> scl \<longrightarrow> last_level g' es0 = None"
    by auto
  have start: "i2c_unwedge ports gl port w =
      bind_stop (if v0 = 0 then unwedge_scl_loop ports port 0 w2 else Inr (True, w2))
        (\<lambda>(released, w3). if \<not> released then unwedge_done ports gl port EC_ERROR_UNKNOWN w3
                           else unwedge_data ports gl port w3)"
    by (simp add: i2c_unwedge_def raw_mode_eq[OF Hscl Hsda] bind_stop_def
          raw_get_scl_eq[OF Hscl] w1_def[symmetric] g)
  \<comment> \<open>the clock-stretch wait\<close>
  have "\<exists>b w3 wl. (if v0 = 0 then unwedge_scl_loop ports port 0 w2 else Inr (True, w2)) = Inr (b, w3) \<and>
          trace w3 = trace w1 @ wl \<and>
          length (filter is_delay wl) \<le> UNWEDGE_SCL_ATTEMPTS \<and>
          (\<forall>e\<in>set wl. quiet e \<or> is_delay e) \<and>
          (b \<longrightarrow> (\<exists>v. last_level scl wl = Some v \<and> v \<noteq> 0)) \<and>
          (\<not> b \<longrightarrow> last_level scl wl = Some 0 \<and> Cprintf Unwedge_SCL_held_low \<in> set wl) \<and>
          last_level sda wl = None"
  proof (cases "v0 = 0")
    case False
    with es0 ne show ?thesis
      by (intro exI[of _ True] exI[of _ w2] exI[of _ es0]) (auto simp: quiet_no_delay)
  next
    case True
    from unwedge_scl_loop_trace[OF Hscl, of 0 w2] obtain b w3 esl where
      r: "unwedge_scl_loop ports port 0 w2 = Inr (b, w3)" "trace w3 = trace w2 @ esl"
         "length (filter is_delay esl) \<le> UNWEDGE_SCL_ATTEMPTS"
         "\<forall>e\<in>set esl. quiet e \<or> is_delay e"
         "b \<longrightarrow> (\<exists>v. last_level scl esl = Some v \<and> v \<noteq> 0)"
         "\<not> b \<longrightarrow> last_level scl esl = Some 0 \<or> last_level scl esl = None"
         "\<not> b \<longrightarrow> Cprintf Unwedge_SCL_held_low \<in> set esl"
         "\<forall>g'. g' \<noteq> scl \<longrightarrow> last_level g' esl = None"
      by auto
    show ?thesis
      apply (intro exI[of _ b] exI[of _ w3] exI[of _ "es0 @ esl"])
      using r es0 True ne
      apply (auto simp: last_level_append quiet_no_delay split: option.splits)
      done
  qed
  then obtain b w3 wl where
    sl: "(if v0 = 0 then unwedge_scl_loop ports port 0 w2 else Inr (True, w2)) = Inr (b, w3)"
        "trace w3 = trace w1 @ wl"
        "length (filter is_delay wl) \<le> UNWEDGE_SCL_ATTEMPTS"
        "\<forall>e\<in>set wl. quiet e \<or> is_delay e"
        "b \<longrightarrow> (\<exists>v. last_level scl wl = Some v \<and> v \<noteq> 0)"
        "\<not> b \<longrightarrow> last_level scl wl = Some 0 \<and> Cprintf Unwedge_SCL_held_low \<in> set wl"
        "last_level sda wl = None"
    by blast
  show ?thesis
  proof (cases b)
    case False
    have "i2c_unwedge ports gl port w = Inr (EC_ERROR_UNKNOWN, raw_mode_exit gl sda scl w3)"
      using False by (simp add: start sl(1) bind_stop_def unwedge_done_eq[OF Hscl Hsda])
    with sl False show ?thesis
      by (intro exI[of _ EC_ERROR_UNKNOWN] exI[of _ w3])
         (rule exI[of _ wl], rule exI[of _ "[]"], rule exI[of _ "[]"], simp add: w1_def)
  next
    case True
    from unwedge_data_trace[OF Hscl Hsda ne, of gl w3] obtain ret w9 pre attempts tail where
      d: "unwedge_data ports gl port w3 = Inr (ret, raw_mode_exit gl sda scl w9)"
         "trace w9 = trace w3 @ pre @ concat attempts @ tail"
         "\<forall>e\<in>set pre. quiet e" "\<forall>e\<in>set tail. quiet e"
         "length attempts \<le> UNWEDGE_SDA_ATTEMPTS"
         "\<forall>a\<in>set attempts. clock_low_count scl a \<le> 9 \<and> (\<forall>e\<in>set a. raw_event e) \<and>
               length (filter (\<lambda>e. e = GpioSetLevel sda 0) a) = 1"
         "(attempts = [] \<and> tail = [] \<and> ret = EC_SUCCESS \<and> last_level scl pre = None \<and>
             (\<exists>a. last_level sda pre = Some a \<and> a \<noteq> 0)) \<or>
          (\<exists>a b. last_level sda tail = Some a \<and> last_level scl tail = Some b \<and>
                   ret = (if a \<noteq> 0 \<and> b \<noteq> 0 then EC_SUCCESS else EC_ERROR_UNKNOWN) \<and>
                   (a = 0 \<longrightarrow> Cprintf Unwedge_SDA_still_low \<in> set tail) \<and>
                   (b = 0 \<longrightarrow> Cprintf Unwedge_SCL_still_low \<in> set tail))"
      by blast
    have eq: "i2c_unwedge ports gl port w = Inr (ret, raw_mode_exit gl sda scl w9)"
      using True by (simp add: start sl(1) bind_stop_def d(1))
    let ?wait = "wl @ pre"
    have tr: "trace w9 = trace (raw_mode_enter gl sda scl w) @ ?wait @ concat attempts @ tail"
      by (simp add: d(2) sl(2) w1_def)
    have dl: "length (filter is_delay ?wait) \<le> UNWEDGE_SCL_ATTEMPTS"
      using sl(3) quiet_no_delay[OF d(3)] by simp
    have qw: "\<forall>e\<in>set ?wait. quiet e \<or> is_delay e"
      using sl(4) d(3) by auto
    from sl(5) True obtain v where v: "last_level scl wl = Some v" "v \<noteq> 0" by blast
    have rest: "(ret = EC_SUCCESS \<or> ret = EC_ERROR_UNKNOWN) \<and>
           (ret = EC_SUCCESS \<longleftrightarrow>
              (\<exists>a. last_level scl (?wait @ concat attempts @ tail) = Some a \<and> a \<noteq> 0) \<and>
              (\<exists>b. last_level sda (?wait @ concat attempts @ tail) = Some b \<and> b \<noteq> 0)) \<and>
           (last_level scl (?wait @ concat attempts @ tail) = Some 0 \<longrightarrow>
              Cprintf Unwedge_SCL_held_low \<in> set (?wait @ concat attempts @ tail) \<or>
              Cprintf Unwedge_SCL_still_low \<in> set (?wait @ concat attempts @ tail)) \<and>
           (last_level sda (?wait @ concat attempts @ tail) = Some 0 \<longrightarrow>
              Cprintf Unwedge_SDA_still_low \<in> set (?wait @ concat attempts @ tail))"
      using d(7)
    proof
      assume "attempts = [] \<and> tail = [] \<and> ret = EC_SUCCESS \<and> last_level scl pre = None \<and>
             (\<exists>a. last_level sda pre = Some a \<and> a \<noteq> 0)"
      with v sl(7) show ?thesis
        by (auto simp: last_level_append)
    next
      assume "\<exists>a b. last_level sda tail = Some a \<and> last_level scl tail = Some b \<and>
                   ret = (if a \<noteq> 0 \<and> b \<noteq> 0 then EC_SUCCESS else EC_ERROR_UNKNOWN) \<and>
                   (a = 0 \<longrightarrow> Cprintf Unwedge_SDA_still_low \<in> set tail) \<and>
                   (b = 0 \<longrightarrow> Cprintf Unwedge_SCL_still_low \<in> set tail)"
      then obtain a b where ab: "last_level sda tail = Some a" "last_level scl tail = Some b"
          "ret = (if a \<noteq> 0 \<and> b \<noteq> 0 then EC_SUCCESS else EC_ERROR_UNKNOWN)"
          "a = 0 \<longrightarrow> Cprintf Unwedge_SDA_still_low \<in> set tail"
          "b = 0 \<longrightarrow> Cprintf Unwedge_SCL_still_low \<in> set tail"
        by blast
      have "last_level sda (?wait @ concat attempts @ tail) = Some a"
        "last_level scl (?wait @ concat attempts @ tail) = Some b"
        using ab(1,2)
        by (simp_all add: last_level_append)
      with ab(3,4,5) show ?thesis by auto
    qed
    show ?thesis
      apply (rule exI[of _ ret], rule exI[of _ w9], rule exI[of _ ?wait], rule exI[of _ attempts],
             rule exI[of _ tail])
      using eq tr dl qw d(4,5,6) rest
      apply blast
      done
  qed
qed

lemmas unwedge_defs = i2c_unwedge_def unwedge_data_def unwedge_done_def unwedge_sda_loop.simps
  unwedge_sda_attempt_def unwedge_clock_loop.simps unwedge_scl_loop.simps i2c_raw_mode_def
  raw_mode_enter_def raw_mode_exit_def i2c_raw_get_scl_def i2c_raw_get_sda_def raw_get_pin_def
  i2c_raw_set_scl_def i2c_raw_set_sda_def get_scl_from_i2c_port_def get_sda_from_i2c_port_def
  bind_stop_def gpio_defs Let_def UNWEDGE_SCL_ATTEMPTS_def UNWEDGE_SDA_ATTEMPTS_def
  I2C_BITBANG_DELAY_US_def

lemma entered_pins:
  assumes "i2c_raw_mode ports gl port 1 w = Inr (EC_SUCCESS, w1)"
      and "find_port ports port = Some p"
  shows "get_scl_from_i2c_port ports port = Inr (Inr (p_scl p))"
    and "get_sda_from_i2c_port ports port = Inr (Inr (p_sda p))"
    and "w1 = raw_mode_enter gl (p_sda p) (p_scl p) w"
  using assms
  by (auto simp: i2c_raw_mode_def get_scl_from_i2c_port_def get_sda_from_i2c_port_def
           split: if_splits)

lemma raw_mode_exit_trace:
  "trace (raw_mode_exit gl sda scl w) = trace w @
     [GpioSetAlternateFunction (fst (gl sda)) (snd (gl sda)) 3,
      GpioSetAlternateFunction (fst (gl scl)) (snd (gl scl)) 3,
      GpioSetFlags scl [GPIO_OUTPUT], GpioSetFlags sda [GPIO_OUTPUT, GPIO_OPEN_DRAIN],
      MutexUnlock raw_mode_mutex]"
  by (simp add: raw_mode_exit_def gpio_defs)

lemma raw_mode_enter_trace:
  "trace (raw_mode_enter gl sda scl w) = trace w @
     [MutexLock raw_mode_mutex,
      GpioSetAlternateFunction (fst (gl sda)) (snd (gl sda)) 0,
      GpioSetAlternateFunction (fst (gl scl)) (snd (gl scl)) 0,
      GpioSetFlags scl [GPIO_OUTPUT, GPIO_OPEN_DRAIN], GpioSetLevel scl 1,
      GpioSetFlags sda [GPIO_OUTPUT, GPIO_OPEN_DRAIN], GpioSetLevel sda 1]"
  by (simp add: raw_mode_enter_def gpio_defs)

text \<open>
  C5. Take a call of \<open>i2c_unwedge\<close> that enters raw mode (the port \<open>p\<close> of the table has
  its pins defined; the pins are two different GPIO signals). The call returns. What it adds
  to the trace after entering raw mode splits into the clock-stretch wait, with at most
  \<open>UNWEDGE_SCL_ATTEMPTS\<close> = 10 delays and no pin driven, then at most
  \<open>UNWEDGE_SDA_ATTEMPTS\<close> = 3 attempts, each with one STOP (data driven low once) and
  the clock driven low at most 9 times, then samples only; and the last thing the call
  does, whatever it returns, is to leave raw mode: both pins back on alternate function 3,
  the mutex released.
\<close>

theorem i2c_unwedge_bounded:
  assumes "i2c_raw_mode ports gl port 1 w = Inr (EC_SUCCESS, w1)"
      and "find_port ports port = Some p"
      and "p_scl p \<noteq> p_sda p"
  shows "\<exists>ret w2 wait attempts tail.
           i2c_unwedge ports gl port w = Inr (ret, raw_mode_exit gl (p_sda p) (p_scl p) w2) \<and>
           i2c_raw_mode ports gl port 0 w2 =
             Inr (EC_SUCCESS, raw_mode_exit gl (p_sda p) (p_scl p) w2) \<and>
           trace w2 = trace w1 @ wait @ concat attempts @ tail \<and>
           length (filter is_delay wait) \<le> UNWEDGE_SCL_ATTEMPTS \<and>
           UNWEDGE_SCL_ATTEMPTS = 10 \<and>
           (\<forall>e\<in>set wait. quiet e \<or> is_delay e) \<and>
           length attempts \<le> UNWEDGE_SDA_ATTEMPTS \<and>
           UNWEDGE_SDA_ATTEMPTS = 3 \<and>
           (\<forall>a\<in>set attempts. clock_low_count (p_scl p) a \<le> 9 \<and>
               length (filter (\<lambda>e. e = GpioSetLevel (p_sda p) 0) a) = 1) \<and>
           (\<forall>e\<in>set tail. quiet e) \<and>
           trace (raw_mode_exit gl (p_sda p) (p_scl p) w2) = trace w2 @
             [GpioSetAlternateFunction (fst (gl (p_sda p))) (snd (gl (p_sda p))) 3,
              GpioSetAlternateFunction (fst (gl (p_scl p))) (snd (gl (p_scl p))) 3,
              GpioSetFlags (p_scl p) [GPIO_OUTPUT],
              GpioSetFlags (p_sda p) [GPIO_OUTPUT, GPIO_OPEN_DRAIN],
              MutexUnlock raw_mode_mutex]"
proof -
  note pins = entered_pins[OF assms(1,2)]
  from i2c_unwedge_trace[OF pins(1,2) assms(3), of gl w]
  obtain ret w2 wait attempts tail where
    u: "i2c_unwedge ports gl port w = Inr (ret, raw_mode_exit gl (p_sda p) (p_scl p) w2)"
       "trace w2 = trace (raw_mode_enter gl (p_sda p) (p_scl p) w) @ wait @ concat attempts @ tail"
       "length (filter is_delay wait) \<le> UNWEDGE_SCL_ATTEMPTS"
       "\<forall>e\<in>set wait. quiet e \<or> is_delay e" "\<forall>e\<in>set tail. quiet e"
       "length attempts \<le> UNWEDGE_SDA_ATTEMPTS"
       "\<forall>a\<in>set attempts. clock_low_count (p_scl p) a \<le> 9 \<and> (\<forall>e\<in>set a. raw_event e) \<and>
               length (filter (\<lambda>e. e = GpioSetLevel (p_sda p) 0) a) = 1"
    by blast
  have x: "i2c_raw_mode ports gl port 0 w2 =
             Inr (EC_SUCCESS, raw_mode_exit gl (p_sda p) (p_scl p) w2)"
    by (simp add: raw_mode_eq[OF pins(1,2)])
  show ?thesis
    apply (rule exI[of _ ret], rule exI[of _ w2], rule exI[of _ wait], rule exI[of _ attempts],
           rule exI[of _ tail])
    using u x pins(3) raw_mode_exit_trace[of gl "p_sda p" "p_scl p" w2]
    apply (simp add: UNWEDGE_SCL_ATTEMPTS_def UNWEDGE_SDA_ATTEMPTS_def)
    done
qed

theorem i2c_unwedge_bounded_witness:
  "\<exists>ret w2 wait attempts tail.
     i2c_unwedge ports1 gl1 0 world_sda_low = Inr (ret, raw_mode_exit gl1 11 10 w2) \<and>
     trace w2 = trace (raw_mode_enter gl1 11 10 world_sda_low) @ wait @ concat attempts @ tail \<and>
     length (filter is_delay wait) \<le> UNWEDGE_SCL_ATTEMPTS \<and>
     length attempts \<le> UNWEDGE_SDA_ATTEMPTS"
proof -
  let ?p = "\<lparr>p_name = ''batt'', p_port = 0, p_kbps = 100, p_scl = 10, p_sda = 11\<rparr>"
  have e: "i2c_raw_mode ports1 gl1 0 1 world_sda_low =
             Inr (EC_SUCCESS, raw_mode_enter gl1 11 10 world_sda_low)"
    by (simp add: i2c_raw_mode_def get_scl_from_i2c_port_def get_sda_from_i2c_port_def ports1_def)
  have f: "find_port ports1 0 = Some ?p" by (simp add: ports1_def)
  have n: "p_scl ?p \<noteq> p_sda ?p" by simp
  from i2c_unwedge_bounded[OF e f n] show ?thesis
    by (simp only: i2c_port_t.select_convs) blast
qed

text \<open>
  C6, as the code has it. A call of \<open>i2c_unwedge\<close> that enters raw mode returns
  \<open>EC_SUCCESS\<close> exactly when the last sample of the clock pin and the last sample of
  the data pin it took were both high, and \<open>EC_ERROR_UNKNOWN\<close> otherwise: the same code
  whichever line is low. A clock last sampled low comes with the console message for a
  clock held low or still low, a data line last sampled low with the message for data
  still low. \<open>es\<close> are the events the call adds to the trace.
\<close>

theorem i2c_unwedge_result:
  assumes "i2c_raw_mode ports gl port 1 w = Inr (EC_SUCCESS, w1)"
      and "find_port ports port = Some p"
      and "p_scl p \<noteq> p_sda p"
  shows "\<exists>ret w' es.
           i2c_unwedge ports gl port w = Inr (ret, w') \<and> trace w' = trace w @ es \<and>
           (ret = EC_SUCCESS \<or> ret = EC_ERROR_UNKNOWN) \<and>
           (ret = EC_SUCCESS \<longleftrightarrow>
              (\<exists>a. last_level (p_scl p) es = Some a \<and> a \<noteq> 0) \<and>
              (\<exists>b. last_level (p_sda p) es = Some b \<and> b \<noteq> 0)) \<and>
           (last_level (p_scl p) es = Some 0 \<longrightarrow>
              Cprintf Unwedge_SCL_held_low \<in> set es \<or> Cprintf Unwedge_SCL_still_low \<in> set es) \<and>
           (last_level (p_sda p) es = Some 0 \<longrightarrow> Cprintf Unwedge_SDA_still_low \<in> set es)"
proof -
  note pins = entered_pins[OF assms(1,2)]
  let ?scl = "p_scl p" and ?sda = "p_sda p"
  from i2c_unwedge_trace[OF pins(1,2) assms(3), of gl w]
  obtain ret w2 wait attempts tail where
    u: "i2c_unwedge ports gl port w = Inr (ret, raw_mode_exit gl ?sda ?scl w2)"
       "trace w2 = trace (raw_mode_enter gl ?sda ?scl w) @ wait @ concat attempts @ tail"
       "ret = EC_SUCCESS \<or> ret = EC_ERROR_UNKNOWN"
       "ret = EC_SUCCESS \<longleftrightarrow>
              (\<exists>a. last_level ?scl (wait @ concat attempts @ tail) = Some a \<and> a \<noteq> 0) \<and>
              (\<exists>b. last_level ?sda (wait @ concat attempts @ tail) = Some b \<and> b \<noteq> 0)"
       "last_level ?scl (wait @ concat attempts @ tail) = Some 0 \<longrightarrow>
              Cprintf Unwedge_SCL_held_low \<in> set (wait @ concat attempts @ tail) \<or>
              Cprintf Unwedge_SCL_still_low \<in> set (wait @ concat attempts @ tail)"
       "last_level ?sda (wait @ concat attempts @ tail) = Some 0 \<longrightarrow>
              Cprintf Unwedge_SDA_still_low \<in> set (wait @ concat attempts @ tail)"
    by blast
  define mid where "mid = wait @ concat attempts @ tail"
  define enter where "enter = [MutexLock raw_mode_mutex,
      GpioSetAlternateFunction (fst (gl ?sda)) (snd (gl ?sda)) 0,
      GpioSetAlternateFunction (fst (gl ?scl)) (snd (gl ?scl)) 0,
      GpioSetFlags ?scl [GPIO_OUTPUT, GPIO_OPEN_DRAIN], GpioSetLevel ?scl 1,
      GpioSetFlags ?sda [GPIO_OUTPUT, GPIO_OPEN_DRAIN], GpioSetLevel ?sda 1]"
  define exit where "exit = [GpioSetAlternateFunction (fst (gl ?sda)) (snd (gl ?sda)) 3,
      GpioSetAlternateFunction (fst (gl ?scl)) (snd (gl ?scl)) 3,
      GpioSetFlags ?scl [GPIO_OUTPUT], GpioSetFlags ?sda [GPIO_OUTPUT, GPIO_OPEN_DRAIN],
      MutexUnlock raw_mode_mutex]"
  have tr: "trace (raw_mode_exit gl ?sda ?scl w2) = trace w @ enter @ mid @ exit"
    by (simp add: raw_mode_exit_trace u(2) raw_mode_enter_trace mid_def enter_def exit_def)
  have ll: "last_level g (enter @ mid @ exit) = last_level g mid" for g
    by (simp add: last_level_append enter_def exit_def split: option.splits)
  have cp: "Cprintf m \<in> set (enter @ mid @ exit) \<longleftrightarrow> Cprintf m \<in> set mid" for m
    by (auto simp: enter_def exit_def)
  show ?thesis
    apply (rule exI[of _ ret], rule exI[of _ "raw_mode_exit gl ?sda ?scl w2"],
           rule exI[of _ "enter @ mid @ exit"])
    unfolding ll cp
    using u(1,3,4,5,6) tr
    unfolding mid_def[symmetric]
    apply blast
    done
qed

theorem i2c_unwedge_result_witness:
  "\<exists>ret w' es. i2c_unwedge ports1 gl1 0 world_scl_low = Inr (ret, w') \<and>
      trace w' = trace world_scl_low @ es \<and> (ret = EC_SUCCESS \<or> ret = EC_ERROR_UNKNOWN)"
proof -
  let ?p = "\<lparr>p_name = ''batt'', p_port = 0, p_kbps = 100, p_scl = 10, p_sda = 11\<rparr>"
  have e: "i2c_raw_mode ports1 gl1 0 1 world_scl_low =
             Inr (EC_SUCCESS, raw_mode_enter gl1 11 10 world_scl_low)"
    by (simp add: i2c_raw_mode_def get_scl_from_i2c_port_def get_sda_from_i2c_port_def ports1_def)
  have f: "find_port ports1 0 = Some ?p" by (simp add: ports1_def)
  have n: "p_scl ?p \<noteq> p_sda ?p" by simp
  from i2c_unwedge_result[OF e f n] show ?thesis
    by blast
qed

text \<open>The claim's two return codes do not exist: a clock held low and a data line held
  low both come back as \<open>EC_ERROR_UNKNOWN\<close>.\<close>

theorem i2c_unwedge_result_counterexample:
  "map_option fst (returned (i2c_unwedge ports1 gl1 0 world_scl_low)) = Some EC_ERROR_UNKNOWN \<and>
   map_option fst (returned (i2c_unwedge ports1 gl1 0 world_sda_low)) = Some EC_ERROR_UNKNOWN"
  by (simp add: returned_def unwedge_defs ports1_def gl1_def world_scl_low_def world_sda_low_def)

section \<open>The transaction engine: what a transfer adds to the trace\<close>

lemma ctl_writes_append [simp]: "ctl_writes port (a @ b) = ctl_writes port a @ ctl_writes port b"
  by (simp add: ctl_writes_def)

lemma ctl_writes_Nil [simp]: "ctl_writes port [] = []"
  by (simp add: ctl_writes_def)

lemma ctl_writes_Cons [simp]:
  "ctl_writes port (e # es) = (if is_ctl_write port e then e # ctl_writes port es else ctl_writes port es)"
  by (simp add: ctl_writes_def)

lemma ctl_writes_none: "\<forall>e\<in>set es. \<not> is_ctl_write port e \<Longrightarrow> ctl_writes port es = []"
  by (simp add: ctl_writes_def filter_empty_conv)

lemma final_world_bind:
  assumes "final_world q (bind_stop m f) = Some w'"
  shows "m = Inl (NoReturn w') \<or> (\<exists>x. m = Inr x \<and> final_world q (f x) = Some w')"
proof (cases m)
  case (Inl s)
  with assms show ?thesis by (cases s) (simp_all add: bind_stop_def)
next
  case (Inr x)
  with assms show ?thesis by (simp add: bind_stop_def)
qed

text \<open>A wait adds only reads of the status register, writes of the interrupt mask and the
  task's waits and event posts.\<close>

lemma wait_idle_loop_quiet:
  assumes "final_world snd (wait_idle_loop port i event w) = Some w'"
  shows "\<exists>es. trace w' = trace w @ es \<and>
              (\<forall>e\<in>set es. transfer_event port e \<and> \<not> is_ctl_write port e)"
  using assms
proof (induction evs \<equiv> "event_in w" arbitrary: w i event)
  case Nil
  then show ?case
    by (subst (asm) wait_idle_loop.simps)
       (auto simp: io_defs Let_def split: if_splits)
next
  case (Cons e evs)
  show ?case
  proof (cases "i AND LM4_I2C_MCS_BUSY \<noteq> 0")
    case False
    with Cons.prems show ?thesis
      by (subst (asm) wait_idle_loop.simps)
         (auto simp: io_defs Let_def split: if_splits)
  next
    case True
    define r where "r = pending w (cur_task w) OR e"
    define event' where "event' = event OR (r AND NOT TASK_EVENT_I2C_IDLE)"
    define w5 where "w5 = w\<lparr>event_in := evs, pending := (pending w)(cur_task w := 0),
        trace := trace w @ [RegWrite (LM4_I2C_MIMR port) 3, TaskWaitEvent 1000000 r,
                            RegWrite (LM4_I2C_MIMR port) 0],
        task_waiting_on_port := (task_waiting_on_port w)(port := None)\<rparr>"
    show ?thesis
    proof (cases "event' AND TASK_EVENT_TIMER \<noteq> 0")
      case t: True
      have eq: "wait_idle_loop port i event w = Inr (EC_ERROR_TIMEOUT,
                  task_set_event (cur_task w) (event' AND NOT TASK_EVENT_TIMER) 0 w5)"
        using True t Cons.hyps(2)[symmetric]
        by (subst wait_idle_loop.simps)
           (simp add: io_defs Let_def r_def event'_def w5_def)
      with Cons.prems
      have w': "w' = task_set_event (cur_task w) (event' AND NOT TASK_EVENT_TIMER) 0 w5"
        by simp
      show ?thesis
        unfolding w'
        by (rule exI[of _ "[RegWrite (LM4_I2C_MIMR port) 3, TaskWaitEvent 1000000 r,
               RegWrite (LM4_I2C_MIMR port) 0,
               TaskSetEvent (cur_task w) (event' AND NOT TASK_EVENT_TIMER) 0]"])
           (simp add: io_defs w5_def)
    next
      case f: False
      define w6 where "w6 = snd (reg_read (LM4_I2C_MCS port) w5)"
      define i' where "i' = fst (reg_read (LM4_I2C_MCS port) w5)"
      have eq: "wait_idle_loop port i event w = wait_idle_loop port i' event' w6"
        using True f Cons.hyps(2)[symmetric]
        by (subst wait_idle_loop.simps)
           (simp add: io_defs Let_def r_def event'_def w5_def w6_def i'_def)
      have evs: "evs = event_in w6" by (simp add: w6_def w5_def)
      from Cons.hyps(1)[OF evs, of i' event'] Cons.prems eq
      obtain es where es: "trace w' = trace w6 @ es"
        "\<forall>e\<in>set es. transfer_event port e \<and> \<not> is_ctl_write port e"
        by auto
      show ?thesis
        apply (rule exI[of _ "[RegWrite (LM4_I2C_MIMR port) 3, TaskWaitEvent 1000000 r,
               RegWrite (LM4_I2C_MIMR port) 0, RegRead (LM4_I2C_MCS port) i'] @ es"])
        using es
        apply (simp add: w6_def w5_def io_defs i'_def)
        done
    qed
  qed
qed

lemma wait_idle_quiet:
  assumes "final_world snd (wait_idle port w) = Some w'"
  shows "\<exists>es. trace w' = trace w @ es \<and>
              (\<forall>e\<in>set es. transfer_event port e \<and> \<not> is_ctl_write port e)"
proof -
  define i where "i = fst (reg_read (LM4_I2C_MCS port) w)"
  define w1 where "w1 = snd (reg_read (LM4_I2C_MCS port) w)"
  have eq: "wait_idle port w = wait_idle_loop port i 0 w1"
    by (simp add: wait_idle_def i_def w1_def split: prod.splits)
  have tr1: "trace w1 = trace w @ [RegRead (LM4_I2C_MCS port) i]"
    by (simp_all add: w1_def i_def reg_read_def emit_def)
  from wait_idle_loop_quiet[of port i 0 w1 w'] assms eq
  obtain es where "trace w' = trace w1 @ es"
    "\<forall>e\<in>set es. transfer_event port e \<and> \<not> is_ctl_write port e"
    by auto
  with tr1 show ?thesis
    by (intro exI[of _ "RegRead (LM4_I2C_MCS port) i # es"]) simp
qed

text \<open>The write loop from byte \<open>i\<close>: the control words it writes are those of the bytes
  \<open>i\<close> up to some \<open>n\<close>, all of them when it ends with \<open>EC_SUCCESS\<close>.\<close>

lemma tx_loop_events:
  assumes "final_world (\<lambda>(rv, st, w). w) (tx_loop port td ts rs stop i started w) = Some w'"
  shows "\<exists>es n. trace w' = trace w @ es \<and> (\<forall>e\<in>set es. transfer_event port e) \<and>
           i \<le> n \<and> int n \<le> max (int i) ts \<and>
           ctl_writes port es =
             map (\<lambda>k. RegWrite (LM4_I2C_MCS port) (tx_control ts rs stop (started \<or> k \<noteq> i) k)) [i..<n] \<and>
           (\<forall>st. tx_loop port td ts rs stop i started w = Inr (EC_SUCCESS, st, w')
                 \<longrightarrow> int n = max (int i) ts)"
  using assms
proof (induction m \<equiv> "nat (ts - int i)" arbitrary: i started w)
  case 0
  then have "tx_loop port td ts rs stop i started w = Inr (EC_SUCCESS, started, w)"
    by (subst tx_loop.simps) simp
  with 0 show ?case
    by (intro exI[of _ "[]"] exI[of _ i]) auto
next
  case (Suc m)
  then have lt: "int i < ts" by simp
  show ?case
  proof (cases "i < length td")
    case False
    with lt Suc.prems show ?thesis
      by (subst (asm) tx_loop.simps) simp
  next
    case True
    define c where "c = tx_control ts rs stop started i"
    define w2 where "w2 = reg_write (LM4_I2C_MCS port) c (reg_write (LM4_I2C_MDR port) (ucast (td ! i)) w)"
    have tr2: "trace w2 = trace w @ [RegWrite (LM4_I2C_MDR port) (ucast (td ! i)), RegWrite (LM4_I2C_MCS port) c]"
      by (simp add: w2_def io_defs)
    have eq: "tx_loop port td ts rs stop i started w =
        bind_stop (wait_idle port w2)
          (\<lambda>(rv, w3). if rv \<noteq> EC_SUCCESS then Inr (rv, True, w3)
                       else tx_loop port td ts rs stop (Suc i) True w3)"
      using lt True by (subst tx_loop.simps) (simp add: Let_def w2_def c_def)
    let ?words = "\<lambda>i started n. map (\<lambda>k. RegWrite (LM4_I2C_MCS port) (tx_control ts rs stop (started \<or> k \<noteq> i) k)) [i..<n]"
    from Suc.prems[unfolded eq] final_world_bind
    consider (blocked) "wait_idle port w2 = Inl (NoReturn w')"
      | (ret) x where "wait_idle port w2 = Inr x"
          "final_world (\<lambda>(rv, st, w). w) (case x of (rv, w3) \<Rightarrow> if rv \<noteq> EC_SUCCESS then Inr (rv, True, w3)
                       else tx_loop port td ts rs stop (Suc i) True w3) = Some w'"
      by blast
    then show ?thesis
    proof cases
      case blocked
      then have "final_world snd (wait_idle port w2) = Some w'" by simp
      from wait_idle_quiet[OF this] obtain es where
        es: "trace w' = trace w2 @ es" "\<forall>e\<in>set es. transfer_event port e \<and> \<not> is_ctl_write port e"
        by blast
      have ne: "tx_loop port td ts rs stop i started w \<noteq> Inr (EC_SUCCESS, st, w')" for st
        by (simp add: eq blocked bind_stop_def)
      show ?thesis
        apply (rule exI[of _ "[RegWrite (LM4_I2C_MDR port) (ucast (td ! i)), RegWrite (LM4_I2C_MCS port) c] @ es"])
        apply (rule exI[of _ "Suc i"])
        using es tr2 lt ne
        apply (simp add: ctl_writes_none c_def)
        done
    next
      case ret
      obtain rv w3 where x: "x = (rv, w3)" by (cases x)
      have "final_world snd (wait_idle port w2) = Some w3" by (simp add: ret(1) x)
      from wait_idle_quiet[OF this] obtain es where
        es: "trace w3 = trace w2 @ es" "\<forall>e\<in>set es. transfer_event port e \<and> \<not> is_ctl_write port e"
        by blast
      show ?thesis
      proof (cases "rv \<noteq> EC_SUCCESS")
        case True
        with ret(2) x have w': "w' = w3" by simp
        have r: "tx_loop port td ts rs stop i started w = Inr (rv, True, w3)"
          using True by (simp add: eq ret(1) x bind_stop_def)
        show ?thesis
          apply (rule exI[of _ "[RegWrite (LM4_I2C_MDR port) (ucast (td ! i)), RegWrite (LM4_I2C_MCS port) c] @ es"])
          apply (rule exI[of _ "Suc i"])
          using es tr2 lt True r
          apply (simp add: ctl_writes_none c_def w')
          done
      next
        case False
        have r: "tx_loop port td ts rs stop i started w = tx_loop port td ts rs stop (Suc i) True w3"
          using False by (simp add: eq ret(1) x bind_stop_def)
        have m: "m = nat (ts - int (Suc i))" using Suc.hyps(2) by simp
        from ret(2) x False
        have "final_world (\<lambda>(rv, st, w). w) (tx_loop port td ts rs stop (Suc i) True w3) = Some w'"
          by simp
        from Suc.hyps(1)[OF m this] obtain es' n where
          ih: "trace w' = trace w3 @ es'" "\<forall>e\<in>set es'. transfer_event port e"
              "Suc i \<le> n" "int n \<le> max (int (Suc i)) ts"
              "ctl_writes port es' = ?words (Suc i) True n"
              "\<forall>st. tx_loop port td ts rs stop (Suc i) True w3 = Inr (EC_SUCCESS, st, w')
                 \<longrightarrow> int n = max (int (Suc i)) ts"
          by blast
        have words: "?words i started n = RegWrite (LM4_I2C_MCS port) c # ?words (Suc i) True n"
          using ih(3) by (simp add: upt_conv_Cons c_def)
        show ?thesis
          apply (rule exI[of _ "[RegWrite (LM4_I2C_MDR port) (ucast (td ! i)), RegWrite (LM4_I2C_MCS port) c] @ es @ es'"])
          apply (rule exI[of _ n])
          unfolding r words
          using es tr2 lt ih
          apply (simp add: ctl_writes_none)
          apply blast
          done
      qed
    qed
  qed
qed

text \<open>The read loop from byte \<open>i\<close>, in the same way.\<close>

lemma rx_loop_events:
  assumes "final_world (\<lambda>(rv, st, rd, w). w) (rx_loop port rdo rs stop i started w) = Some w'"
  shows "\<exists>es n. trace w' = trace w @ es \<and> (\<forall>e\<in>set es. transfer_event port e) \<and>
           i \<le> n \<and> int n \<le> max (int i) rs \<and>
           ctl_writes port es =
             map (\<lambda>k. RegWrite (LM4_I2C_MCS port) (rx_control rs stop (started \<or> k \<noteq> i) k)) [i..<n] \<and>
           (\<forall>st rd'. rx_loop port rdo rs stop i started w = Inr (EC_SUCCESS, st, rd', w')
                 \<longrightarrow> int n = max (int i) rs)"
  using assms
proof (induction m \<equiv> "nat (rs - int i)" arbitrary: i started w rdo)
  case 0
  then have "rx_loop port rdo rs stop i started w = Inr (EC_SUCCESS, started, rdo, w)"
    by (subst rx_loop.simps) simp
  with 0 show ?case
    by (intro exI[of _ "[]"] exI[of _ i]) auto
next
  case (Suc m)
  then have lt: "int i < rs" by simp
  show ?case
  proof (cases rdo)
    case None
    with lt Suc.prems show ?thesis
      by (subst (asm) rx_loop.simps) simp
  next
    case (Some rd)
    show ?thesis
    proof (cases "i < length rd")
      case False
      with lt Some Suc.prems show ?thesis
        by (subst (asm) rx_loop.simps) simp
    next
      case True
      define c where "c = rx_control rs stop started i"
      define w2 where "w2 = reg_write (LM4_I2C_MCS port) c (reg_write (LM4_I2C_MDR port) (ucast (rd ! i)) w)"
      have tr2: "trace w2 = trace w @ [RegWrite (LM4_I2C_MDR port) (ucast (rd ! i)), RegWrite (LM4_I2C_MCS port) c]"
        by (simp add: w2_def io_defs)
      have eq: "rx_loop port rdo rs stop i started w =
          bind_stop (wait_idle port w2)
            (\<lambda>(rv, w3). if rv \<noteq> EC_SUCCESS then Inr (rv, True, Some rd, w3)
                else (case reg_read (LM4_I2C_MDR port) w3 of
                        (v, w4) \<Rightarrow> rx_loop port (Some (rd[i := ucast (v AND 255)])) rs stop (Suc i) True w4))"
        using lt True Some by (subst rx_loop.simps) (simp add: Let_def w2_def c_def)
      let ?words = "\<lambda>i started n. map (\<lambda>k. RegWrite (LM4_I2C_MCS port) (rx_control rs stop (started \<or> k \<noteq> i) k)) [i..<n]"
      from Suc.prems[unfolded eq] final_world_bind
      consider (blocked) "wait_idle port w2 = Inl (NoReturn w')"
        | (ret) x where "wait_idle port w2 = Inr x"
            "final_world (\<lambda>(rv, st, rd, w). w) (case x of (rv, w3) \<Rightarrow>
                if rv \<noteq> EC_SUCCESS then Inr (rv, True, Some rd, w3)
                else (case reg_read (LM4_I2C_MDR port) w3 of
                        (v, w4) \<Rightarrow> rx_loop port (Some (rd[i := ucast (v AND 255)])) rs stop (Suc i) True w4))
               = Some w'"
        by blast
      then show ?thesis
      proof cases
        case blocked
        then have "final_world snd (wait_idle port w2) = Some w'" by simp
        from wait_idle_quiet[OF this] obtain es where
          es: "trace w' = trace w2 @ es" "\<forall>e\<in>set es. transfer_event port e \<and> \<not> is_ctl_write port e"
          by blast
        have ne: "rx_loop port rdo rs stop i started w \<noteq> Inr (EC_SUCCESS, st, rd', w')" for st rd'
          by (simp add: eq blocked bind_stop_def)
        show ?thesis
          apply (rule exI[of _ "[RegWrite (LM4_I2C_MDR port) (ucast (rd ! i)), RegWrite (LM4_I2C_MCS port) c] @ es"])
          apply (rule exI[of _ "Suc i"])
          using es tr2 lt ne
          apply (simp add: ctl_writes_none c_def)
          done
      next
        case ret
        obtain rv w3 where x: "x = (rv, w3)" by (cases x)
        have "final_world snd (wait_idle port w2) = Some w3" by (simp add: ret(1) x)
        from wait_idle_quiet[OF this] obtain es where
          es: "trace w3 = trace w2 @ es" "\<forall>e\<in>set es. transfer_event port e \<and> \<not> is_ctl_write port e"
          by blast
        show ?thesis
        proof (cases "rv \<noteq> EC_SUCCESS")
          case True
          with ret(2) x have w': "w' = w3" by simp
          have r: "rx_loop port rdo rs stop i started w = Inr (rv, True, Some rd, w3)"
            using True by (simp add: eq ret(1) x bind_stop_def)
          show ?thesis
            apply (rule exI[of _ "[RegWrite (LM4_I2C_MDR port) (ucast (rd ! i)), RegWrite (LM4_I2C_MCS port) c] @ es"])
            apply (rule exI[of _ "Suc i"])
            using es tr2 lt True r
            apply (simp add: ctl_writes_none c_def w')
            done
        next
          case False
          define v where "v = fst (reg_read (LM4_I2C_MDR port) w3)"
          define w4 where "w4 = snd (reg_read (LM4_I2C_MDR port) w3)"
          have tr4: "trace w4 = trace w3 @ [RegRead (LM4_I2C_MDR port) v]"
            by (simp add: w4_def v_def io_defs)
          have r: "rx_loop port rdo rs stop i started w =
                     rx_loop port (Some (rd[i := ucast (v AND 255)])) rs stop (Suc i) True w4"
            using False by (simp add: eq ret(1) x bind_stop_def v_def w4_def split: prod.splits)
          have m: "m = nat (rs - int (Suc i))" using Suc.hyps(2) by simp
          from ret(2) x False
          have "final_world (\<lambda>(rv, st, rd, w). w)
                  (rx_loop port (Some (rd[i := ucast (v AND 255)])) rs stop (Suc i) True w4) = Some w'"
            by (simp add: v_def w4_def split: prod.splits)
          from Suc.hyps(1)[OF m this] obtain es' n where
            ih: "trace w' = trace w4 @ es'" "\<forall>e\<in>set es'. transfer_event port e"
                "Suc i \<le> n" "int n \<le> max (int (Suc i)) rs"
                "ctl_writes port es' = ?words (Suc i) True n"
                "\<forall>st rd'. rx_loop port (Some (rd[i := ucast (v AND 255)])) rs stop (Suc i) True w4
                     = Inr (EC_SUCCESS, st, rd', w') \<longrightarrow> int n = max (int (Suc i)) rs"
            by blast
          have words: "?words i started n = RegWrite (LM4_I2C_MCS port) c # ?words (Suc i) True n"
            using ih(3) by (simp add: upt_conv_Cons c_def)
          show ?thesis
            apply (rule exI[of _ "[RegWrite (LM4_I2C_MDR port) (ucast (rd ! i)), RegWrite (LM4_I2C_MCS port) c]
                      @ es @ [RegRead (LM4_I2C_MDR port) v] @ es'"])
            apply (rule exI[of _ n])
            unfolding r words
            using es tr2 tr4 lt ih
            apply (simp add: ctl_writes_none)
            apply blast
            done
        qed
      qed
    qed
  qed
qed

text \<open>The read loop stores received bytes at the indices from \<open>i\<close> up to
  \<open>receive_size\<close> only, and keeps the length of the buffer.\<close>

lemma rx_loop_buffer:
  assumes "rx_loop port (Some rd) rs stop i started w = Inr (rv, st, rd', w')"
  shows "\<exists>d'. rd' = Some d' \<and> length d' = length rd \<and>
              (\<forall>j<length rd. j < i \<or> rs \<le> int j \<longrightarrow> d' ! j = rd ! j)"
  using assms
proof (induction m \<equiv> "nat (rs - int i)" arbitrary: i started w rd)
  case 0
  then have "rx_loop port (Some rd) rs stop i started w = Inr (EC_SUCCESS, started, Some rd, w)"
    by (subst rx_loop.simps) simp
  with 0 show ?case by auto
next
  case (Suc m)
  then have lt: "int i < rs" by simp
  show ?case
  proof (cases "i < length rd")
    case False
    with lt Suc.prems show ?thesis
      by (subst (asm) rx_loop.simps) simp
  next
    case True
    define w2 where "w2 = reg_write (LM4_I2C_MCS port) (rx_control rs stop started i)
                            (reg_write (LM4_I2C_MDR port) (ucast (rd ! i)) w)"
    have eq: "rx_loop port (Some rd) rs stop i started w =
        bind_stop (wait_idle port w2)
          (\<lambda>(rv, w3). if rv \<noteq> EC_SUCCESS then Inr (rv, True, Some rd, w3)
              else (case reg_read (LM4_I2C_MDR port) w3 of
                      (v, w4) \<Rightarrow> rx_loop port (Some (rd[i := ucast (v AND 255)])) rs stop (Suc i) True w4))"
      using lt True by (subst rx_loop.simps) (simp add: Let_def w2_def)
    from Suc.prems[unfolded eq] obtain rv1 w3 where
      wi: "wait_idle port w2 = Inr (rv1, w3)"
      by (auto simp: bind_stop_def split: sum.splits)
    show ?thesis
    proof (cases "rv1 \<noteq> EC_SUCCESS")
      case True
      with Suc.prems[unfolded eq] wi show ?thesis by (auto simp: bind_stop_def)
    next
      case False
      define v where "v = fst (reg_read (LM4_I2C_MDR port) w3)"
      define w4 where "w4 = snd (reg_read (LM4_I2C_MDR port) w3)"
      have r: "rx_loop port (Some (rd[i := ucast (v AND 255)])) rs stop (Suc i) True w4
                 = Inr (rv, st, rd', w')"
        using Suc.prems[unfolded eq] wi False
        by (simp add: bind_stop_def v_def w4_def split: prod.splits)
      have m: "m = nat (rs - int (Suc i))" using Suc.hyps(2) by simp
      from Suc.hyps(1)[OF m r] obtain d' where
        d: "rd' = Some d'" "length d' = length (rd[i := ucast (v AND 255)])"
           "\<forall>j<length (rd[i := ucast (v AND 255)]). j < Suc i \<or> rs \<le> int j
               \<longrightarrow> d' ! j = rd[i := ucast (v AND 255)] ! j"
        by blast
      have "d' ! j = rd ! j" if "j < length rd" "j < i \<or> rs \<le> int j" for j
      proof -
        have "j \<noteq> i" using that(2) lt by auto
        moreover have "d' ! j = rd[i := ucast (v AND 255)] ! j"
          using d(3) that by auto
        ultimately show ?thesis by simp
      qed
      with d show ?thesis by simp
    qed
  qed
qed

subsection \<open>The recovery adds no register access of its own\<close>

lemma raw_ext_refl [simp]: "raw_ext w w"
  by (simp add: raw_ext_def)

lemma raw_ext_trans: "raw_ext w w1 \<Longrightarrow> raw_ext w1 w2 \<Longrightarrow> raw_ext w w2"
  unfolding raw_ext_def
proof (elim exE conjE)
  fix es es' assume "trace w1 = trace w @ es" "\<forall>e\<in>set es. raw_event e"
    "trace w2 = trace w1 @ es'" "\<forall>e\<in>set es'. raw_event e"
  then show "\<exists>es. trace w2 = trace w @ es \<and> (\<forall>e\<in>set es. raw_event e)"
    by (intro exI[of _ "es @ es'"]) auto
qed

lemma raw_ext_emit: "raw_event e \<Longrightarrow> raw_ext w w1 \<Longrightarrow> raw_ext w (emit e w1)"
  by (rule raw_ext_trans[of w w1]) (auto simp: raw_ext_def emit_def)

lemma raw_ext_gpio [simp]:
  "raw_ext w w1 \<Longrightarrow> raw_ext w (gpio_set_level g v w1)"
  "raw_ext w w1 \<Longrightarrow> raw_ext w (gpio_set_flags g fl w1)"
  "raw_ext w w1 \<Longrightarrow> raw_ext w (gpio_set_alternate_function a b c w1)"
  "raw_ext w w1 \<Longrightarrow> raw_ext w (udelay us w1)"
  "raw_ext w w1 \<Longrightarrow> raw_ext w (cprintf m w1)"
  "raw_ext w w1 \<Longrightarrow> raw_ext w (mutex_lock mx w1)"
  "raw_ext w w1 \<Longrightarrow> raw_ext w (mutex_unlock mx w1)"
  by (simp_all add: gpio_set_level_def gpio_set_flags_def gpio_set_alternate_function_def
        udelay_def cprintf_def mutex_lock_def mutex_unlock_def raw_ext_emit)

lemma raw_ext_get_level [simp]: "raw_ext w w1 \<Longrightarrow> raw_ext w (snd (gpio_get_level g w1))"
  by (rule raw_ext_trans[of w w1]) (auto simp: raw_ext_def gpio_get_level_def emit_def)

lemma raw_ext_get_pin [simp]: "raw_ext w w1 \<Longrightarrow> raw_ext w (snd (raw_get_pin g w1))"
  by (simp add: raw_get_pin_def split: prod.splits)
     (metis raw_ext_get_level raw_ext_gpio(2) snd_conv)

lemma raw_res_bind:
  assumes "raw_res p w m" and "\<And>x. m = Inr x \<Longrightarrow> raw_res q (p x) (f x)"
  shows "raw_res q w (bind_stop m f)"
proof (cases m)
  case (Inl s)
  with assms(1) show ?thesis by (cases s) (simp_all add: bind_stop_def)
next
  case (Inr x)
  with assms have a: "raw_ext w (p x)" "raw_res q (p x) (f x)" by simp_all
  show ?thesis
  proof (cases "f x")
    case (Inl s)
    with a(2) Inr show ?thesis by (cases s) (simp_all add: bind_stop_def)
  next
    case r: (Inr y)
    with a Inr show ?thesis by (auto simp: bind_stop_def intro: raw_ext_trans)
  qed
qed

lemma get_pin_fail:
  "get_scl_from_i2c_port ports port = Inl s \<Longrightarrow> s = AssertFail"
  "get_sda_from_i2c_port ports port = Inl s \<Longrightarrow> s = AssertFail"
  by (auto simp: get_scl_from_i2c_port_def get_sda_from_i2c_port_def split: option.splits if_splits)

lemma raw_res_mono: "raw_ext w w1 \<Longrightarrow> raw_res q w1 m \<Longrightarrow> raw_res q w m"
  using raw_res_bind[of id w "Inr w1" q "\<lambda>_. m"] by (simp add: bind_stop_def)

lemma raw_res_get:
  "raw_ext w w1 \<Longrightarrow> raw_res snd w (i2c_raw_get_scl ports port w1)"
  "raw_ext w w1 \<Longrightarrow> raw_res snd w (i2c_raw_get_sda ports port w1)"
  by (auto simp: i2c_raw_get_scl_def i2c_raw_get_sda_def split: sum.splits dest!: get_pin_fail)

lemma raw_res_set:
  "raw_ext w w1 \<Longrightarrow> raw_res id w (i2c_raw_set_scl ports port v w1)"
  "raw_ext w w1 \<Longrightarrow> raw_res id w (i2c_raw_set_sda ports port v w1)"
  by (auto simp: i2c_raw_set_scl_def i2c_raw_set_sda_def split: sum.splits dest!: get_pin_fail)

lemma raw_res_mode: "raw_ext w w1 \<Longrightarrow> raw_res snd w (i2c_raw_mode ports gl port enable w1)"
  by (auto simp: i2c_raw_mode_def raw_mode_enter_def raw_mode_exit_def Let_def
           split: sum.splits dest!: get_pin_fail)

lemmas raw_res_binds = raw_res_bind[where p = snd] raw_res_bind[where p = id]

lemma raw_res_scl_loop: "raw_ext w w1 \<Longrightarrow> raw_res snd w (unwedge_scl_loop ports port i w1)"
proof (induction n \<equiv> "UNWEDGE_SCL_ATTEMPTS - i" arbitrary: i w w1)
  case 0
  then show ?case by (subst unwedge_scl_loop.simps) simp
next
  case (Suc n)
  then have n: "n = UNWEDGE_SCL_ATTEMPTS - Suc i" and lt: "\<not> i \<ge> UNWEDGE_SCL_ATTEMPTS" by simp_all
  show ?case
    using Suc.prems
    by (subst unwedge_scl_loop.simps)
       (auto simp: lt intro!: raw_res_binds raw_res_get Suc.hyps(1)[OF n])
qed

lemma raw_res_clock_loop: "raw_ext w w1 \<Longrightarrow> raw_res id w (unwedge_clock_loop ports port j w1)"
proof (induction n \<equiv> "9 - j" arbitrary: j w w1)
  case 0
  then show ?case by (subst unwedge_clock_loop.simps) simp
next
  case (Suc n)
  then have n: "n = 9 - Suc j" and lt: "j < 9" by simp_all
  show ?case
    using Suc.prems
    by (subst unwedge_clock_loop.simps)
       (auto simp: lt intro!: raw_res_binds raw_res_get raw_res_set Suc.hyps(1)[OF n])
qed

lemma raw_res_attempt: "raw_ext w w1 \<Longrightarrow> raw_res snd w (unwedge_sda_attempt ports port w1)"
  unfolding unwedge_sda_attempt_def
  by (auto intro!: raw_res_binds raw_res_get raw_res_set raw_res_clock_loop)

lemma raw_res_sda_loop: "raw_ext w w1 \<Longrightarrow> raw_res id w (unwedge_sda_loop ports port i w1)"
proof (induction n \<equiv> "UNWEDGE_SDA_ATTEMPTS - i" arbitrary: i w w1)
  case 0
  then show ?case by (subst unwedge_sda_loop.simps) simp
next
  case (Suc n)
  then have n: "n = UNWEDGE_SDA_ATTEMPTS - Suc i" and lt: "i < UNWEDGE_SDA_ATTEMPTS" by simp_all
  show ?case
    using Suc.prems
    by (subst unwedge_sda_loop.simps)
       (auto simp: lt intro!: raw_res_binds raw_res_attempt Suc.hyps(1)[OF n])
qed

lemma raw_res_done: "raw_ext w w1 \<Longrightarrow> raw_res snd w (unwedge_done ports gl port ret w1)"
  unfolding unwedge_done_def
  by (auto intro!: raw_res_binds raw_res_mode)

lemma raw_res_data: "raw_ext w w1 \<Longrightarrow> raw_res snd w (unwedge_data ports gl port w1)"
  unfolding unwedge_data_def
  by (auto simp: Let_def intro!: raw_res_binds raw_res_get raw_res_sda_loop raw_res_done)

text \<open>Whatever the port table is, \<open>i2c_unwedge\<close> returns or fails an assertion, and adds
  only GPIO, mutex, delay and console events to the trace.\<close>

lemma raw_res_unwedge: "raw_res snd w (i2c_unwedge ports gl port w)"
  unfolding i2c_unwedge_def
  by (auto intro!: raw_res_binds raw_res_get raw_res_mode raw_res_scl_loop raw_res_done
        raw_res_data)

subsection \<open>The check of the port and the recovery\<close>

lemma raw_res_Inr: "raw_res p w m \<Longrightarrow> m = Inr x \<Longrightarrow> raw_ext w (p x)"
  by simp

lemma raw_res_Inl: "raw_res p w m \<Longrightarrow> m = Inl s \<Longrightarrow> s = AssertFail"
  by (cases s) simp_all

lemma recover_port_fail:
  "recover_port ports gl port slave_addr reg_mcs w = Inl s \<Longrightarrow> s = AssertFail"
  using raw_res_Inl[OF raw_res_unwedge]
  by (auto simp: recover_port_def bind_stop_def Let_def split: prod.splits sum.splits)

lemma recover_port_events:
  assumes "recover_port ports gl port slave_addr reg_mcs w = Inr w'"
  shows "\<exists>pre wa rvu wb s1 s2 tpr.
           trace wa = trace w @ pre \<and> (\<forall>e\<in>set pre. is_read_or_print e) \<and>
           RegRead (LM4_I2C_MTPR port) tpr \<in> set pre \<and>
           i2c_unwedge ports gl port wa = Inr (rvu, wb) \<and> raw_ext wa wb \<and>
           trace w' = trace wb @ reset_events port s1 s2 tpr"
proof -
  define tpr where "tpr = reg_in w (LM4_I2C_MTPR port) 0"
  define w1 where "w1 = snd (reg_read (LM4_I2C_MTPR port) w)"
  define l1 where "l1 = fst (i2c_get_line_levels port w1)"
  define w2 where "w2 = snd (i2c_get_line_levels port w1)"
  define l2 where "l2 = fst (i2c_get_line_levels port w2)"
  define w3 where "w3 = snd (i2c_get_line_levels port w2)"
  define msg where "msg = Bad_status port slave_addr reg_mcs (l1 AND I2C_LINE_SCL_HIGH)
                            (l2 AND I2C_LINE_SDA_HIGH)"
  define wa where "wa = cprintf msg w3"
  have tra: "trace wa = trace w @ [RegRead (LM4_I2C_MTPR port) tpr,
               RegRead (LM4_I2C_MBMON port) (reg_in w1 (LM4_I2C_MBMON port) 0),
               RegRead (LM4_I2C_MBMON port) (reg_in w2 (LM4_I2C_MBMON port) 0), Cprintf msg]"
    by (simp add: wa_def w3_def w2_def w1_def tpr_def i2c_get_line_levels_def io_defs cprintf_def
          split: prod.splits)
  from assms obtain rvu wb where
    u: "i2c_unwedge ports gl port wa = Inr (rvu, wb)"
    by (auto simp: recover_port_def bind_stop_def wa_def msg_def w3_def l2_def w2_def l1_def w1_def
             split: prod.splits sum.splits)
  define s1 where "s1 = reg_in wb LM4_SYSTEM_SRI2C 0"
  define s2 where "s2 = reg_in wb LM4_SYSTEM_SRI2C 1"
  have trw: "trace w' = trace wb @ reset_events port s1 s2 tpr"
    using assms u
    by (simp add: recover_port_def bind_stop_def wa_def msg_def w3_def l2_def w2_def l1_def w1_def
          Let_def reset_events_def io_defs clock_wait_cycles_def usleep_def s1_def s2_def tpr_def
          split: prod.splits)
       (auto simp: io_defs)
  from raw_res_Inr[OF raw_res_unwedge u] have r: "raw_ext wa wb" by simp
  show ?thesis
    apply (rule exI[of _ "[RegRead (LM4_I2C_MTPR port) tpr,
               RegRead (LM4_I2C_MBMON port) (reg_in w1 (LM4_I2C_MBMON port) 0),
               RegRead (LM4_I2C_MBMON port) (reg_in w2 (LM4_I2C_MBMON port) 0), Cprintf msg]"])
    apply (rule exI[of _ wa], rule exI[of _ rvu], rule exI[of _ wb], rule exI[of _ s1],
           rule exI[of _ s2], rule exI[of _ tpr])
    using tra u r trw
    apply simp
    done
qed

lemma port_check_fail:
  "port_check ports gl port slave_addr start w = Inl s \<Longrightarrow> s = AssertFail"
  by (auto simp: port_check_def split: prod.splits if_splits dest: recover_port_fail)

lemma port_check_good:
  assumes "\<not> port_is_bad port start w"
  shows "\<exists>w'. port_check ports gl port slave_addr start w = Inr w' \<and>
           trace w' = trace w @ RegRead (LM4_I2C_MCS port) (reg_in w (LM4_I2C_MCS port) 0) #
             (if start \<noteq> 0 then [RegRead (LM4_I2C_MBMON port) (reg_in w (LM4_I2C_MBMON port) 0)]
              else [])"
  using assms
  by (auto simp: port_is_bad_def port_check_def i2c_get_line_levels_def io_defs)

lemma port_check_bad:
  assumes "port_is_bad port start w"
      and "port_check ports gl port slave_addr start w = Inr w'"
  shows "\<exists>pre wa rvu wb s1 s2 tpr.
           trace wa = trace w @ pre \<and> (\<forall>e\<in>set pre. is_read_or_print e) \<and>
           RegRead (LM4_I2C_MTPR port) tpr \<in> set pre \<and>
           i2c_unwedge ports gl port wa = Inr (rvu, wb) \<and> raw_ext wa wb \<and>
           trace w' = trace wb @ reset_events port s1 s2 tpr"
proof -
  define mcs where "mcs = reg_in w (LM4_I2C_MCS port) 0"
  define w1 where "w1 = snd (reg_read (LM4_I2C_MCS port) w)"
  have tr1: "trace w1 = trace w @ [RegRead (LM4_I2C_MCS port) mcs]"
    by (simp add: w1_def mcs_def io_defs)
  define w2 where "w2 = snd (i2c_get_line_levels port w1)"
  have tr2: "trace w2 = trace w @ [RegRead (LM4_I2C_MCS port) mcs,
               RegRead (LM4_I2C_MBMON port) (reg_in w (LM4_I2C_MBMON port) 0)]"
    by (simp add: w2_def w1_def mcs_def i2c_get_line_levels_def io_defs)
  from assms consider
      (stale) "recover_port ports gl port slave_addr mcs w1 = Inr w'"
    | (wedged) "recover_port ports gl port slave_addr mcs w2 = Inr w'"
    by (auto simp: port_is_bad_def port_check_def mcs_def w1_def w2_def io_defs
                   i2c_get_line_levels_def split: if_splits)
  then show ?thesis
  proof cases
    case stale
    from recover_port_events[OF stale] obtain pre wa rvu wb s1 s2 tpr where
      r: "trace wa = trace w1 @ pre" "\<forall>e\<in>set pre. is_read_or_print e"
         "RegRead (LM4_I2C_MTPR port) tpr \<in> set pre"
         "i2c_unwedge ports gl port wa = Inr (rvu, wb)" "raw_ext wa wb"
         "trace w' = trace wb @ reset_events port s1 s2 tpr"
      by blast
    show ?thesis
      apply (rule exI[of _ "RegRead (LM4_I2C_MCS port) mcs # pre"])
      apply (rule exI[of _ wa], rule exI[of _ rvu], rule exI[of _ wb], rule exI[of _ s1],
             rule exI[of _ s2], rule exI[of _ tpr])
      using r tr1
      apply simp
      done
  next
    case wedged
    from recover_port_events[OF wedged] obtain pre wa rvu wb s1 s2 tpr where
      r: "trace wa = trace w2 @ pre" "\<forall>e\<in>set pre. is_read_or_print e"
         "RegRead (LM4_I2C_MTPR port) tpr \<in> set pre"
         "i2c_unwedge ports gl port wa = Inr (rvu, wb)" "raw_ext wa wb"
         "trace w' = trace wb @ reset_events port s1 s2 tpr"
      by blast
    show ?thesis
      apply (rule exI[of _ "[RegRead (LM4_I2C_MCS port) mcs,
               RegRead (LM4_I2C_MBMON port) (reg_in w (LM4_I2C_MBMON port) 0)] @ pre"])
      apply (rule exI[of _ wa], rule exI[of _ rvu], rule exI[of _ wb], rule exI[of _ s1],
             rule exI[of _ s2], rule exI[of _ tpr])
      using r tr2
      apply simp
      done
  qed
qed

lemma raw_not_ctl: "raw_event e \<Longrightarrow> \<not> is_ctl_write port e"
  by (cases e) auto

lemma read_or_print_not_ctl: "is_read_or_print e \<Longrightarrow> \<not> is_ctl_write port e"
  by (cases e) auto

lemma ctl_writes_reset [simp]: "ctl_writes port (reset_events port s1 s2 tpr) = []"
  by (simp add: reset_events_def)

lemma port_check_no_ctl:
  assumes "port_check ports gl port slave_addr start w = Inr w'"
  shows "\<exists>es. trace w' = trace w @ es \<and> ctl_writes port es = []"
proof (cases "port_is_bad port start w")
  case False
  from port_check_good[OF False, of ports gl slave_addr] assms show ?thesis
    by auto
next
  case True
  from port_check_bad[OF True assms] obtain pre wa rvu wb s1 s2 tpr where
    r: "trace wa = trace w @ pre" "\<forall>e\<in>set pre. is_read_or_print e"
       "raw_ext wa wb" "trace w' = trace wb @ reset_events port s1 s2 tpr"
    by blast
  from r(3) obtain un where un: "trace wb = trace wa @ un" "\<forall>e\<in>set un. raw_event e"
    by (auto simp: raw_ext_def)
  show ?thesis
    apply (rule exI[of _ "pre @ un @ reset_events port s1 s2 tpr"])
    using r un
    apply (simp add: ctl_writes_none raw_not_ctl read_or_print_not_ctl)
    done
qed

subsection \<open>The write phase, the read phase and the whole transfer\<close>

lemma expected_ctl_parts:
  "expected_ctl port slave_addr transmit_data transmit_size receive_size start stop =
     tx_part port slave_addr transmit_data transmit_size receive_size start stop @
     rx_part port slave_addr transmit_size receive_size start stop"
  by (simp add: expected_ctl_def tx_part_def rx_part_def)

lemma take_map_upt: "n \<le> N \<Longrightarrow> map f [0..<n] = take n (map f [0..<N])"
  by (simp add: take_map)

lemma write_phase_events:
  assumes "final_world (\<lambda>(rv, st, w). w)
             (write_phase port slave_addr transmit_data ts rs start stop w) = Some w'"
  shows "\<exists>es n. trace w' = trace w @ es \<and> (\<forall>e\<in>set es. transfer_event port e) \<and>
           ctl_writes port es = take n (tx_part port slave_addr transmit_data ts rs start stop) \<and>
           (\<forall>st. write_phase port slave_addr transmit_data ts rs start stop w = Inr (EC_SUCCESS, st, w')
                \<longrightarrow> ctl_writes port es = tx_part port slave_addr transmit_data ts rs start stop \<and>
                    (ts = 0 \<longrightarrow> st = (start = 0)))"
proof (cases transmit_data)
  case None
  with assms show ?thesis
    by (intro exI[of _ "[]"] exI[of _ 0]) (auto simp: write_phase_def tx_part_def)
next
  case (Some td)
  define a where "a = (word_of_int slave_addr AND 255 :: u32)"
  define w1 where "w1 = reg_write (LM4_I2C_MSA port) a w"
  have tr1: "trace w1 = trace w @ [RegWrite (LM4_I2C_MSA port) a]"
    by (simp add: w1_def io_defs)
  have eq: "write_phase port slave_addr transmit_data ts rs start stop w =
              tx_loop port td ts rs stop 0 (start = 0) w1"
    by (simp add: write_phase_def Some w1_def a_def)
  let ?f = "\<lambda>k. RegWrite (LM4_I2C_MCS port) (tx_control ts rs stop (start = 0 \<or> k \<noteq> 0) k)"
  from tx_loop_events[OF assms[unfolded eq]] obtain es n where
    t: "trace w' = trace w1 @ es" "\<forall>e\<in>set es. transfer_event port e" "int n \<le> max 0 ts"
       "ctl_writes port es = map ?f [0..<n]"
       "\<forall>st. tx_loop port td ts rs stop 0 (start = 0) w1 = Inr (EC_SUCCESS, st, w')
             \<longrightarrow> int n = max 0 ts"
    by auto
  have n: "n \<le> nat ts" using t(3) by auto
  have tp: "tx_part port slave_addr transmit_data ts rs start stop =
              RegWrite (LM4_I2C_MSA port) a # map ?f [0..<nat ts]"
    by (simp add: tx_part_def Some a_def)
  have c: "ctl_writes port (RegWrite (LM4_I2C_MSA port) a # es) =
             take (Suc n) (tx_part port slave_addr transmit_data ts rs start stop)"
    unfolding tp using t(4) take_map_upt[OF n, of ?f] by simp
  have full: "ctl_writes port (RegWrite (LM4_I2C_MSA port) a # es) =
                 tx_part port slave_addr transmit_data ts rs start stop \<and> (ts = 0 \<longrightarrow> st = (start = 0))"
    if r: "tx_loop port td ts rs stop 0 (start = 0) w1 = Inr (EC_SUCCESS, st, w')" for st
  proof -
    from t(5) r have "int n = max 0 ts" by blast
    then have "n = nat ts" by auto
    moreover have "st = (start = 0)" if "ts = 0"
      using r that by (subst (asm) tx_loop.simps) simp
    ultimately show ?thesis unfolding tp using t(4) by simp
  qed
  show ?thesis
    apply (rule exI[of _ "RegWrite (LM4_I2C_MSA port) a # es"], rule exI[of _ "Suc n"])
    unfolding eq
    using t(1,2) tr1 c full
    apply simp
    apply blast?
    done
qed

lemma read_phase_events:
  assumes "final_world (\<lambda>(rv, st, rd, w). w)
             (read_phase port slave_addr ts receive_data rs stop started w) = Some w'"
      and "ts = 0 \<longrightarrow> started = (start = 0)"
  shows "\<exists>es n. trace w' = trace w @ es \<and> (\<forall>e\<in>set es. transfer_event port e) \<and>
           ctl_writes port es = take n (rx_part port slave_addr ts rs start stop) \<and>
           (\<forall>st rd'. read_phase port slave_addr ts receive_data rs stop started w
                        = Inr (EC_SUCCESS, st, rd', w')
                \<longrightarrow> ctl_writes port es = rx_part port slave_addr ts rs start stop)"
proof (cases "rs = 0")
  case True
  with assms show ?thesis
    by (intro exI[of _ "[]"] exI[of _ 0]) (auto simp: read_phase_def rx_part_def)
next
  case False
  define a where "a = ((word_of_int slave_addr AND 255) OR 1 :: u32)"
  define w1 where "w1 = reg_write (LM4_I2C_MSA port) a w"
  define s0 where "s0 = (ts = 0 \<and> start = 0)"
  have tr1: "trace w1 = trace w @ [RegWrite (LM4_I2C_MSA port) a]"
    by (simp add: w1_def io_defs)
  have s: "(if ts \<noteq> 0 then False else started) = s0"
    using assms(2) by (auto simp: s0_def)
  have eq: "read_phase port slave_addr ts receive_data rs stop started w =
              rx_loop port receive_data rs stop 0 s0 w1"
    using False by (simp add: read_phase_def w1_def a_def s)
  let ?f = "\<lambda>k. RegWrite (LM4_I2C_MCS port) (rx_control rs stop (s0 \<or> k \<noteq> 0) k)"
  from rx_loop_events[OF assms(1)[unfolded eq]] obtain es n where
    t: "trace w' = trace w1 @ es" "\<forall>e\<in>set es. transfer_event port e" "int n \<le> max 0 rs"
       "ctl_writes port es = map ?f [0..<n]"
       "\<forall>st rd'. rx_loop port receive_data rs stop 0 s0 w1 = Inr (EC_SUCCESS, st, rd', w')
             \<longrightarrow> int n = max 0 rs"
    by auto
  have n: "n \<le> nat rs" using t(3) by auto
  have rp: "rx_part port slave_addr ts rs start stop =
              RegWrite (LM4_I2C_MSA port) a # map ?f [0..<nat rs]"
    using False by (simp add: rx_part_def a_def s0_def)
  have c: "ctl_writes port (RegWrite (LM4_I2C_MSA port) a # es) =
             take (Suc n) (rx_part port slave_addr ts rs start stop)"
    unfolding rp using t(4) take_map_upt[OF n, of ?f] by simp
  have full: "ctl_writes port (RegWrite (LM4_I2C_MSA port) a # es) =
                 rx_part port slave_addr ts rs start stop"
    if r: "rx_loop port receive_data rs stop 0 s0 w1 = Inr (EC_SUCCESS, st, rd', w')" for st rd'
  proof -
    from t(5) r have "int n = max 0 rs" by blast
    then have "n = nat rs" by auto
    then show ?thesis unfolding rp using t(4) by simp
  qed
  show ?thesis
    apply (rule exI[of _ "RegWrite (LM4_I2C_MSA port) a # es"], rule exI[of _ "Suc n"])
    unfolding eq
    using t(1,2) tr1 c full
    apply simp
    apply blast?
    done
qed

lemma take_left: "\<exists>m. take n a = take m (a @ b)"
  by (rule exI[of _ "min n (length a)"]) (auto simp: min_def)

lemma take_right: "\<exists>m. a @ take n b = take m (a @ b)"
  by (rule exI[of _ "length a + n"]) simp

text \<open>A transfer that is not empty is the check of the port followed by transfer events
  only; its address and control writes are an initial part of \<open>expected_ctl\<close>, and all of
  it when the transfer returns \<open>EC_SUCCESS\<close>.\<close>

lemma transmit_receive_events:
  assumes nz: "\<not> (ts = 0 \<and> rs = 0)"
      and fw: "final_world (\<lambda>(rv, rd, w). w)
                 (i2c_transmit_receive ports gl port slave_addr transmit_data ts receive_data rs
                    start stop w) = Some w'"
  shows "\<exists>w3 rest n.
           port_check ports gl port slave_addr start w = Inr w3 \<and>
           trace w' = trace w3 @ rest \<and> (\<forall>e\<in>set rest. transfer_event port e) \<and>
           ctl_writes port rest = take n (expected_ctl port slave_addr transmit_data ts rs start stop) \<and>
           (\<forall>rd'. i2c_transmit_receive ports gl port slave_addr transmit_data ts receive_data rs
                     start stop w = Inr (EC_SUCCESS, rd', w')
               \<longrightarrow> ctl_writes port rest = expected_ctl port slave_addr transmit_data ts rs start stop)"
proof -
  let ?txp = "tx_part port slave_addr transmit_data ts rs start stop"
  let ?rxp = "rx_part port slave_addr ts rs start stop"
  let ?exp = "expected_ctl port slave_addr transmit_data ts rs start stop"
  let ?call = "i2c_transmit_receive ports gl port slave_addr transmit_data ts receive_data rs start stop w"
  let ?fin = "\<lambda>rd' w5. case reg_read (LM4_I2C_MCS port) w5 of
                 (v, w6) \<Rightarrow>
                   if v AND (LM4_I2C_MCS_CLKTO OR LM4_I2C_MCS_ARBLST OR LM4_I2C_MCS_ERROR) \<noteq> 0
                   then Inr (EC_ERROR_UNKNOWN, rd', w6) else Inr (EC_SUCCESS, rd', w6)"
  let ?rd = "\<lambda>started w4. bind_stop
                (read_phase port slave_addr ts receive_data rs stop started w4)
                (\<lambda>(rv', started', rd', w5). if rv' \<noteq> EC_SUCCESS then Inr (rv', rd', w5)
                                              else ?fin rd' w5)"
  let ?wr = "\<lambda>w3. bind_stop
                (write_phase port slave_addr transmit_data ts rs start stop w3)
                (\<lambda>(rv, started, w4). if rv \<noteq> EC_SUCCESS then Inr (rv, receive_data, w4)
                                        else ?rd started w4)"
  have nz': "(ts = 0 \<and> rs = 0) = False" using nz by simp
  have call: "?call = bind_stop (port_check ports gl port slave_addr start w) ?wr"
    by (simp only: i2c_transmit_receive_def nz' if_False)
  from fw[unfolded call] final_world_bind port_check_fail[of ports gl port slave_addr start w]
  obtain w3 where pc: "port_check ports gl port slave_addr start w = Inr w3"
    and f3: "final_world (\<lambda>(rv, rd, w). w) (?wr w3) = Some w'"
    by blast
  have call3: "?call = ?wr w3" by (simp add: call pc bind_stop_def)
  let ?wp = "write_phase port slave_addr transmit_data ts rs start stop w3"
  have goal: "\<exists>rest n. trace w' = trace w3 @ rest \<and> (\<forall>e\<in>set rest. transfer_event port e) \<and>
           ctl_writes port rest = take n ?exp \<and>
           (\<forall>rd'. ?call = Inr (EC_SUCCESS, rd', w') \<longrightarrow> ctl_writes port rest = ?exp)"
  proof -
    from final_world_bind[OF f3]
    consider (tx_blocked) "?wp = Inl (NoReturn w')"
      | (tx_ret) rv st w4 where "?wp = Inr (rv, st, w4)"
          "final_world (\<lambda>(rv, rd, w). w)
             (if rv \<noteq> EC_SUCCESS then Inr (rv, receive_data, w4) else ?rd st w4) = Some w'"
      by auto
    then show ?thesis
    proof cases
      case tx_blocked
      then have "final_world (\<lambda>(rv, st, w). w) ?wp = Some w'" by simp
      from write_phase_events[OF this] obtain es n where
        e: "trace w' = trace w3 @ es" "\<forall>e\<in>set es. transfer_event port e"
           "ctl_writes port es = take n ?txp"
        by blast
      from take_left[of n ?txp ?rxp] obtain m where m: "take n ?txp = take m ?exp"
        by (auto simp: expected_ctl_parts)
      have "?call \<noteq> Inr (EC_SUCCESS, rd', w')" for rd'
        by (simp add: call3 tx_blocked bind_stop_def)
      with e m show ?thesis by (intro exI[of _ es] exI[of _ m]) simp
    next
      case tx_ret
      have "final_world (\<lambda>(rv, st, w). w) ?wp = Some w4" by (simp add: tx_ret(1))
      from write_phase_events[OF this] obtain es n where
        e: "trace w4 = trace w3 @ es" "\<forall>e\<in>set es. transfer_event port e"
           "ctl_writes port es = take n ?txp"
           "\<forall>st'. ?wp = Inr (EC_SUCCESS, st', w4)
                \<longrightarrow> ctl_writes port es = ?txp \<and> (ts = 0 \<longrightarrow> st' = (start = 0))"
        by blast
      show ?thesis
      proof (cases "rv \<noteq> EC_SUCCESS")
        case True
        with tx_ret(2) have w': "w' = w4" by simp
        from take_left[of n ?txp ?rxp] obtain m where m: "take n ?txp = take m ?exp"
          by (auto simp: expected_ctl_parts)
        have "?call \<noteq> Inr (EC_SUCCESS, rd', w')" for rd'
          using True by (simp add: call3 tx_ret(1) bind_stop_def)
        with e m w' show ?thesis by (intro exI[of _ es] exI[of _ m]) simp
      next
        case False
        then have rv: "rv = EC_SUCCESS" by simp
        from e(4) tx_ret(1) rv have full: "ctl_writes port es = ?txp"
          and st: "ts = 0 \<longrightarrow> st = (start = 0)" by auto
        let ?rp = "read_phase port slave_addr ts receive_data rs stop st w4"
        have call4: "?call = ?rd st w4"
          by (simp add: call3 tx_ret(1) rv bind_stop_def)
        from tx_ret(2) rv have f4: "final_world (\<lambda>(rv, rd, w). w) (?rd st w4) = Some w'"
          by simp
        from final_world_bind[OF f4]
        consider (rx_blocked) "?rp = Inl (NoReturn w')"
          | (rx_ret) rv' st' rd' w5 where "?rp = Inr (rv', st', rd', w5)"
              "final_world (\<lambda>(rv, rd, w). w)
                 (if rv' \<noteq> EC_SUCCESS then Inr (rv', rd', w5) else ?fin rd' w5) = Some w'"
          by auto
        then show ?thesis
        proof cases
          case rx_blocked
          then have "final_world (\<lambda>(rv, st, rd, w). w) ?rp = Some w'" by simp
          from read_phase_events[OF this st] obtain es' n' where
            e': "trace w' = trace w4 @ es'" "\<forall>e\<in>set es'. transfer_event port e"
                "ctl_writes port es' = take n' ?rxp"
            by blast
          from take_right[of ?txp n' ?rxp] obtain m where m: "?txp @ take n' ?rxp = take m ?exp"
            by (auto simp: expected_ctl_parts)
          have "?call \<noteq> Inr (EC_SUCCESS, rd', w')" for rd'
            by (simp add: call4 rx_blocked bind_stop_def)
          with e e' m full show ?thesis by (intro exI[of _ "es @ es'"] exI[of _ m]) auto
        next
          case rx_ret
          have "final_world (\<lambda>(rv, st, rd, w). w) ?rp = Some w5" by (simp add: rx_ret(1))
          from read_phase_events[OF this st] obtain es' n' where
            e': "trace w5 = trace w4 @ es'" "\<forall>e\<in>set es'. transfer_event port e"
                "ctl_writes port es' = take n' ?rxp"
                "\<forall>st'' rd''. ?rp = Inr (EC_SUCCESS, st'', rd'', w5)
                     \<longrightarrow> ctl_writes port es' = ?rxp"
            by blast
          show ?thesis
          proof (cases "rv' \<noteq> EC_SUCCESS")
            case True
            with rx_ret(2) have w': "w' = w5" by simp
            from take_right[of ?txp n' ?rxp] obtain m where m: "?txp @ take n' ?rxp = take m ?exp"
              by (auto simp: expected_ctl_parts)
            have "?call \<noteq> Inr (EC_SUCCESS, rd'', w')" for rd''
              using True by (simp add: call4 rx_ret(1) bind_stop_def)
            with e e' m full w' show ?thesis by (intro exI[of _ "es @ es'"] exI[of _ m]) auto
          next
            case False
            then have rv': "rv' = EC_SUCCESS" by simp
            from e'(4) rx_ret(1) rv' have full': "ctl_writes port es' = ?rxp" by auto
            define v where "v = reg_in w5 (LM4_I2C_MCS port) 0"
            from rx_ret(2) rv' have tr: "trace w' = trace w5 @ [RegRead (LM4_I2C_MCS port) v]"
              by (auto simp: io_defs v_def split: if_splits)
            have "ctl_writes port (es @ es' @ [RegRead (LM4_I2C_MCS port) v]) = ?exp"
              using full full' by (simp add: expected_ctl_parts)
            moreover have "trace w' = trace w3 @ es @ es' @ [RegRead (LM4_I2C_MCS port) v]"
              using tr e(1) e'(1) by simp
            moreover have "\<forall>e\<in>set (es @ es' @ [RegRead (LM4_I2C_MCS port) v]). transfer_event port e"
              using e(2) e'(2) by auto
            ultimately show ?thesis
              by (intro exI[of _ "es @ es' @ [RegRead (LM4_I2C_MCS port) v]"]
                        exI[of _ "length ?exp"]) simp
          qed
        qed
      qed
    qed
  qed
  with pc show ?thesis by blast
qed

section \<open>The transaction engine: address and control writes\<close>

lemma transmit_receive_ctl:
  assumes nz: "\<not> (ts = 0 \<and> rs = 0)"
      and fw: "final_world (\<lambda>(rv, rd, w). w)
                 (i2c_transmit_receive ports gl port slave_addr transmit_data ts receive_data rs
                    start stop w) = Some w'"
      and tr: "trace w' = trace w @ es"
  shows "\<exists>n. ctl_writes port es =
               take n (expected_ctl port slave_addr transmit_data ts rs start stop)"
    and "\<forall>rd'. i2c_transmit_receive ports gl port slave_addr transmit_data ts receive_data rs
                  start stop w = Inr (EC_SUCCESS, rd', w')
            \<longrightarrow> ctl_writes port es = expected_ctl port slave_addr transmit_data ts rs start stop"
proof -
  from transmit_receive_events[OF nz fw] obtain w3 rest n where
    e: "port_check ports gl port slave_addr start w = Inr w3"
       "trace w' = trace w3 @ rest"
       "ctl_writes port rest = take n (expected_ctl port slave_addr transmit_data ts rs start stop)"
       "\<forall>rd'. i2c_transmit_receive ports gl port slave_addr transmit_data ts receive_data rs
                     start stop w = Inr (EC_SUCCESS, rd', w')
               \<longrightarrow> ctl_writes port rest = expected_ctl port slave_addr transmit_data ts rs start stop"
    by blast
  from port_check_no_ctl[OF e(1)] obtain pc where
    pc: "trace w3 = trace w @ pc" "ctl_writes port pc = []"
    by blast
  have es: "es = pc @ rest" using tr e(2) pc(1) by simp
  show "\<exists>n. ctl_writes port es =
               take n (expected_ctl port slave_addr transmit_data ts rs start stop)"
    using e(3) pc(2) by (auto simp: es)
  show "\<forall>rd'. i2c_transmit_receive ports gl port slave_addr transmit_data ts receive_data rs
                  start stop w = Inr (EC_SUCCESS, rd', w')
            \<longrightarrow> ctl_writes port es = expected_ctl port slave_addr transmit_data ts rs start stop"
    using e(4) pc(2) by (auto simp: es)
qed

lemma mcs_writes_ctl: "mcs_writes port (ctl_writes port es) = mcs_writes port es"
  by (induction port es rule: mcs_writes.induct) auto

lemma mcs_writes_append [simp]:
  "mcs_writes port (a @ b) = mcs_writes port a @ mcs_writes port b"
  by (induction port a rule: mcs_writes.induct) auto

lemma mcs_writes_map [simp]:
  "mcs_writes port (map (\<lambda>k. RegWrite (LM4_I2C_MCS port) (f k)) ks) = map f ks"
  by (induction ks) auto

lemma mcs_writes_take: "\<exists>m. mcs_writes port (take n es) = take m (mcs_writes port es)"
proof (induction es arbitrary: n)
  case Nil
  then show ?case by simp
next
  case (Cons e es)
  show ?case
  proof (cases n)
    case 0
    then show ?thesis by (intro exI[of _ 0]) simp
  next
    case (Suc k)
    from Cons[of k] obtain m where m: "mcs_writes port (take k es) = take m (mcs_writes port es)"
      by blast
    show ?thesis
    proof (cases "\<exists>v. e = RegWrite (LM4_I2C_MCS port) v")
      case True
      then show ?thesis using m Suc by (intro exI[of _ "Suc m"]) auto
    next
      case False
      then have "mcs_writes port (e # xs) = mcs_writes port xs" for xs
        by (cases e) auto
      then show ?thesis using m Suc by (intro exI[of _ m]) simp
    qed
  qed
qed

text \<open>The control words of a whole transfer: one for each byte sent, then one for each
  byte received.\<close>

lemma mcs_writes_expected:
  "mcs_writes port (expected_ctl port slave_addr transmit_data ts rs start stop) =
     map (\<lambda>k. tx_control ts rs stop (start = 0 \<or> k \<noteq> 0) k)
       [0..<(case transmit_data of None \<Rightarrow> 0 | Some td \<Rightarrow> nat ts)] @
     map (\<lambda>k. rx_control rs stop ((ts = 0 \<and> start = 0) \<or> k \<noteq> 0) k) [0..<nat rs]"
  by (auto simp: expected_ctl_def split: option.splits)

lemma and_flag:
  "(1::u32) AND 8 = 0" "(1::u32) AND 4 = 0" "(3::u32) AND 8 = 0" "(3::u32) AND 4 = 0"
  "(1::u32) AND 1 = 1" "(3::u32) AND 1 = 1" "(3::u32) AND 2 = 2" "(1::u32) AND 2 = 0"
  "(8::u32) AND 4 = 0" "(4::u32) AND 8 = 0" "(4::u32) AND 1 = 0" "(8::u32) AND 1 = 0"
  "(4::u32) AND 2 = 0" "(8::u32) AND 2 = 0"
  by simp_all

lemma rx_control_bits:
  "rx_control rs stop st i AND LM4_I2C_MCS_ACK \<noteq> 0 \<longleftrightarrow> \<not> (stop \<noteq> 0 \<and> int i = rs - 1)"
  "rx_control rs stop st i AND LM4_I2C_MCS_STOP \<noteq> 0 \<longleftrightarrow> stop \<noteq> 0 \<and> int i = rs - 1"
  "rx_control rs stop st i AND LM4_I2C_MCS_RUN \<noteq> 0"
  "rx_control rs stop st i AND LM4_I2C_MCS_START \<noteq> 0 \<longleftrightarrow> \<not> st"
  by (auto simp: rx_control_def mcs_flags Let_def bit.conj_disj_distrib2 and_flag)

text \<open>
  C2, as the code has it. Let \<open>t\<close> be the number of bytes of the write phase (0 without a
  transmit buffer). A transfer with \<open>receive_size \<ge> 1\<close> writes at most
  \<open>t + receive_size\<close> control words, the word of index \<open>t + i\<close> being the one for received
  byte \<open>i\<close>. That word has RUN set; it has STOP set, and ACK clear, exactly when the caller
  requested stop and the byte is the last one; in every other case it has ACK set and STOP
  clear. So without a stop request the last byte is acknowledged like the others. A
  transfer that returns \<open>EC_SUCCESS\<close> has written all \<open>t + receive_size\<close> control
  words, one for each byte received.
\<close>

theorem read_control_words:
  assumes "final_world (\<lambda>(rv, rd, w). w)
             (i2c_transmit_receive ports gl port slave_addr transmit_data transmit_size
                receive_data receive_size start stop w) = Some w'"
      and "trace w' = trace w @ es"
      and "1 \<le> receive_size"
      and "t = (case transmit_data of None \<Rightarrow> 0 | Some td \<Rightarrow> nat transmit_size)"
  shows "length (mcs_writes port es) \<le> t + nat receive_size \<and>
         (\<forall>i. t + i < length (mcs_writes port es) \<longrightarrow>
            (mcs_writes port es ! (t + i) AND LM4_I2C_MCS_RUN \<noteq> 0) \<and>
            (mcs_writes port es ! (t + i) AND LM4_I2C_MCS_STOP \<noteq> 0
               \<longleftrightarrow> stop \<noteq> 0 \<and> int i = receive_size - 1) \<and>
            (mcs_writes port es ! (t + i) AND LM4_I2C_MCS_ACK \<noteq> 0
               \<longleftrightarrow> \<not> (stop \<noteq> 0 \<and> int i = receive_size - 1))) \<and>
         (\<forall>rd'. i2c_transmit_receive ports gl port slave_addr transmit_data transmit_size
                  receive_data receive_size start stop w = Inr (EC_SUCCESS, rd', w')
            \<longrightarrow> length (mcs_writes port es) = t + nat receive_size)"
proof -
  have nz: "\<not> (transmit_size = 0 \<and> receive_size = 0)" using assms(3) by simp
  let ?txs = "map (\<lambda>k. tx_control transmit_size receive_size stop (start = 0 \<or> k \<noteq> 0) k) [0..<t]"
  let ?rxs = "map (\<lambda>k. rx_control receive_size stop ((transmit_size = 0 \<and> start = 0) \<or> k \<noteq> 0) k)
                [0..<nat receive_size]"
  from transmit_receive_ctl(1)[OF nz assms(1,2)] obtain n where
    "ctl_writes port es =
       take n (expected_ctl port slave_addr transmit_data transmit_size receive_size start stop)"
    by blast
  then have e1: "mcs_writes port es = mcs_writes port
       (take n (expected_ctl port slave_addr transmit_data transmit_size receive_size start stop))"
    using mcs_writes_ctl[of port es] by simp
  from mcs_writes_take[of port n
         "expected_ctl port slave_addr transmit_data transmit_size receive_size start stop"]
  obtain m where m0: "mcs_writes port
       (take n (expected_ctl port slave_addr transmit_data transmit_size receive_size start stop)) =
       take m (mcs_writes port
         (expected_ctl port slave_addr transmit_data transmit_size receive_size start stop))"
    by blast
  have m: "mcs_writes port es = take m (?txs @ ?rxs)"
    unfolding e1 m0 mcs_writes_expected assms(4)[symmetric] ..
  have len: "length (mcs_writes port es) \<le> t + nat receive_size"
    by (simp add: m)
  have word: "mcs_writes port es ! (t + i) =
                rx_control receive_size stop ((transmit_size = 0 \<and> start = 0) \<or> i \<noteq> 0) i"
    if "t + i < length (mcs_writes port es)" for i
  proof -
    from that have lt: "t + i < m" "i < nat receive_size" by (simp_all add: m)
    have "mcs_writes port es ! (t + i) = (?txs @ ?rxs) ! (t + i)"
      unfolding m using lt(1) by (rule nth_take)
    also have "\<dots> = ?rxs ! i" by (simp add: nth_append)
    also have "\<dots> = rx_control receive_size stop ((transmit_size = 0 \<and> start = 0) \<or> i \<noteq> 0) i"
      using lt(2) by simp
    finally show ?thesis .
  qed
  have full: "length (mcs_writes port es) = t + nat receive_size"
    if "i2c_transmit_receive ports gl port slave_addr transmit_data transmit_size
          receive_data receive_size start stop w = Inr (EC_SUCCESS, rd', w')" for rd'
  proof -
    from transmit_receive_ctl(2)[OF nz assms(1,2), rule_format, OF that]
    have "mcs_writes port es = mcs_writes port
            (expected_ctl port slave_addr transmit_data transmit_size receive_size start stop)"
      using mcs_writes_ctl[of port es] by simp
    then have "mcs_writes port es = ?txs @ ?rxs"
      unfolding mcs_writes_expected assms(4)[symmetric] .
    then show ?thesis by simp
  qed
  have bits: "\<forall>i. t + i < length (mcs_writes port es) \<longrightarrow>
            (mcs_writes port es ! (t + i) AND LM4_I2C_MCS_RUN \<noteq> 0) \<and>
            (mcs_writes port es ! (t + i) AND LM4_I2C_MCS_STOP \<noteq> 0
               \<longleftrightarrow> stop \<noteq> 0 \<and> int i = receive_size - 1) \<and>
            (mcs_writes port es ! (t + i) AND LM4_I2C_MCS_ACK \<noteq> 0
               \<longleftrightarrow> \<not> (stop \<noteq> 0 \<and> int i = receive_size - 1))"
    by (auto simp: word rx_control_bits)
  from len bits full show ?thesis by blast
qed

theorem read_control_words_witness:
  "\<exists>w'. final_world (\<lambda>(rv, rd, w). w)
           (i2c_transmit_receive ports1 gl1 0 22 (Some [7]) 1 (Some [0, 0]) 2 1 1 world_idle)
           = Some w' \<and>
         length (mcs_writes 0 (trace w')) = 3 \<and>
         mcs_writes 0 (trace w') ! 1 AND LM4_I2C_MCS_ACK \<noteq> 0 \<and>
         mcs_writes 0 (trace w') ! 1 AND LM4_I2C_MCS_STOP = 0 \<and>
         mcs_writes 0 (trace w') ! 2 AND LM4_I2C_MCS_STOP \<noteq> 0 \<and>
         mcs_writes 0 (trace w') ! 2 AND LM4_I2C_MCS_ACK = 0"
proof -
  have "\<exists>rd w'. i2c_transmit_receive ports1 gl1 0 22 (Some [7]) 1 (Some [0, 0]) 2 1 1 world_idle
          = Inr (EC_SUCCESS, rd, w')"
    by (simp add: world_idle_def ports1_def gl1_def run_defs)
  then obtain rd w1 where
    run: "i2c_transmit_receive ports1 gl1 0 22 (Some [7]) 1 (Some [0, 0]) 2 1 1 world_idle
            = Inr (EC_SUCCESS, rd, w1)"
    by blast
  have fw: "final_world (\<lambda>(rv, rd, w). w)
           (i2c_transmit_receive ports1 gl1 0 22 (Some [7]) 1 (Some [0, 0]) 2 1 1 world_idle)
           = Some w1"
    by (simp add: run)
  have tr: "trace w1 = trace world_idle @ trace w1"
    by (simp add: world_idle_def)
  have t: "(1::nat) = (case Some [7::8 word] of None \<Rightarrow> 0 | Some td \<Rightarrow> nat 1)"
    by simp
  have rs: "(1::int) \<le> 2" by simp
  note all = read_control_words[OF fw tr rs t]
  from all[THEN conjunct2, THEN conjunct2, rule_format, OF run]
  have len: "length (mcs_writes 0 (trace w1)) = 3" by simp
  note th = all[THEN conjunct2, THEN conjunct1, rule_format]
  have a: "1 + 0 < length (mcs_writes 0 (trace w1))" and b: "1 + 1 < length (mcs_writes 0 (trace w1))"
    by (simp_all add: len)
  have one: "(1::nat) + 0 = 1" and two: "(1::nat) + 1 = 2" by simp_all
  from th[OF a] th[OF b] fw len show ?thesis
    unfolding one two by (intro exI[of _ w1]) simp
qed

theorem read_control_words_counterexample:
  "map_option (\<lambda>(rv, rd, w). (rv, mcs_writes 0 (trace w)))
     (returned (i2c_transmit_receive ports1 gl1 0 22 (Some [7]) 1 (Some [0, 0]) 2 1 0 world_idle))
     = Some (EC_SUCCESS, [3, 11, 9]) \<and>
   (9 :: u32) AND LM4_I2C_MCS_ACK \<noteq> 0 \<and> (9 :: u32) AND LM4_I2C_MCS_STOP = 0"
  by (simp add: returned_def world_idle_def ports1_def gl1_def run_defs)

lemma expected_ctl_nth:
  assumes "0 < ts" and "0 < rs"
  shows "length (expected_ctl port slave_addr (Some td) ts rs start stop) = nat ts + nat rs + 2"
    and "expected_ctl port slave_addr (Some td) ts rs start stop ! 0 =
           RegWrite (LM4_I2C_MSA port) (word_of_int slave_addr AND 255)"
    and "j < nat ts \<Longrightarrow> expected_ctl port slave_addr (Some td) ts rs start stop ! Suc j =
           RegWrite (LM4_I2C_MCS port) (tx_control ts rs stop (start = 0 \<or> j \<noteq> 0) j)"
    and "expected_ctl port slave_addr (Some td) ts rs start stop ! (nat ts + 1) =
           RegWrite (LM4_I2C_MSA port) ((word_of_int slave_addr AND 255) OR 1)"
    and "expected_ctl port slave_addr (Some td) ts rs start stop ! (nat ts + 2) =
           RegWrite (LM4_I2C_MCS port) (rx_control rs stop False 0)"
proof -
  let ?tx = "map (\<lambda>k. RegWrite (LM4_I2C_MCS port) (tx_control ts rs stop (start = 0 \<or> k \<noteq> 0) k))
               [0..<nat ts]"
  let ?rx = "map (\<lambda>k. RegWrite (LM4_I2C_MCS port)
                        (rx_control rs stop ((ts = 0 \<and> start = 0) \<or> k \<noteq> 0) k)) [0..<nat rs]"
  let ?a = "RegWrite (LM4_I2C_MSA port) (word_of_int slave_addr AND 255)"
  let ?b = "RegWrite (LM4_I2C_MSA port) ((word_of_int slave_addr AND 255) OR 1)"
  have E: "expected_ctl port slave_addr (Some td) ts rs start stop = (?a # ?tx) @ (?b # ?rx)"
    using assms(2) by (simp add: expected_ctl_def)
  have l: "length (?a # ?tx) = nat ts + 1" by simp
  show "length (expected_ctl port slave_addr (Some td) ts rs start stop) = nat ts + nat rs + 2"
    unfolding E by simp
  show "expected_ctl port slave_addr (Some td) ts rs start stop ! 0 = ?a"
    unfolding E by simp
  show "expected_ctl port slave_addr (Some td) ts rs start stop ! Suc j =
           RegWrite (LM4_I2C_MCS port) (tx_control ts rs stop (start = 0 \<or> j \<noteq> 0) j)"
    if "j < nat ts"
    unfolding E using that by (simp add: nth_append)
  show "expected_ctl port slave_addr (Some td) ts rs start stop ! (nat ts + 1) = ?b"
    unfolding E using nth_append_length[of "?a # ?tx" ?b ?rx] unfolding l by simp
  have "((?a # ?tx) @ (?b # ?rx)) ! (length (?a # ?tx) + 1) = (?b # ?rx) ! 1"
    by (rule nth_append_length_plus)
  also have "\<dots> = ?rx ! 0" by simp
  also have "\<dots> = RegWrite (LM4_I2C_MCS port) (rx_control rs stop False 0)"
    using assms by simp
  finally show "expected_ctl port slave_addr (Some td) ts rs start stop ! (nat ts + 2) =
           RegWrite (LM4_I2C_MCS port) (rx_control rs stop False 0)"
    unfolding E l by (simp add: add.assoc)
qed

text \<open>
  C8. Take a transfer with a write phase (a transmit buffer and \<open>transmit_size > 0\<close>) and
  a read phase (\<open>receive_size > 0\<close>), and list in order its writes to the address
  register \<open>MSA\<close> and the control register \<open>MCS\<close> of the port. The first is the address
  with the write bit, the next \<open>transmit_size\<close> are the control words of the bytes sent.
  The write that follows them, if the transfer gets that far, is the address with the read
  bit set, and the one after it is the control word of the first byte received, which has
  START set, whatever the \<open>start\<close> argument is. A transfer that returns \<open>EC_SUCCESS\<close>
  makes all \<open>transmit_size + receive_size + 2\<close> writes.
\<close>

theorem direction_change_restart:
  assumes "final_world (\<lambda>(rv, rd, w). w)
             (i2c_transmit_receive ports gl port slave_addr (Some td) transmit_size
                receive_data receive_size start stop w) = Some w'"
      and "trace w' = trace w @ es"
      and "0 < transmit_size" and "0 < receive_size"
      and "cs = ctl_writes port es"
      and "k = nat transmit_size + 1"
  shows "length cs \<le> nat transmit_size + nat receive_size + 2 \<and>
         (0 < length cs \<longrightarrow>
            cs ! 0 = RegWrite (LM4_I2C_MSA port) (word_of_int slave_addr AND 255)) \<and>
         (\<forall>j. j < nat transmit_size \<and> Suc j < length cs \<longrightarrow>
            (\<exists>v. cs ! Suc j = RegWrite (LM4_I2C_MCS port) v \<and> v AND LM4_I2C_MCS_ACK = 0)) \<and>
         (k < length cs \<longrightarrow>
            cs ! k = RegWrite (LM4_I2C_MSA port) ((word_of_int slave_addr AND 255) OR 1)) \<and>
         (k + 1 < length cs \<longrightarrow>
            (\<exists>v. cs ! (k + 1) = RegWrite (LM4_I2C_MCS port) v \<and>
                 v AND LM4_I2C_MCS_START \<noteq> 0 \<and> v AND LM4_I2C_MCS_RUN \<noteq> 0)) \<and>
         (\<forall>rd'. i2c_transmit_receive ports gl port slave_addr (Some td) transmit_size
                  receive_data receive_size start stop w = Inr (EC_SUCCESS, rd', w')
            \<longrightarrow> length cs = nat transmit_size + nat receive_size + 2)"
proof -
  let ?E = "expected_ctl port slave_addr (Some td) transmit_size receive_size start stop"
  have nz: "\<not> (transmit_size = 0 \<and> receive_size = 0)" using assms(3) by simp
  note E = expected_ctl_nth[OF assms(3,4)]
  from transmit_receive_ctl(1)[OF nz assms(1,2)] obtain n where n: "cs = take n ?E"
    unfolding assms(5) by blast
  have nth: "cs ! j = ?E ! j" if "j < length cs" for j
    using that unfolding n by simp
  have len: "length cs \<le> nat transmit_size + nat receive_size + 2"
    unfolding n using E(1) by simp
  have full: "length cs = nat transmit_size + nat receive_size + 2"
    if "i2c_transmit_receive ports gl port slave_addr (Some td) transmit_size
          receive_data receive_size start stop w = Inr (EC_SUCCESS, rd', w')" for rd'
    using transmit_receive_ctl(2)[OF nz assms(1,2), rule_format, OF that] E(1)
    unfolding assms(5) by simp
  have txack: "tx_control transmit_size receive_size stop st j AND LM4_I2C_MCS_ACK = 0" for st j
    by (auto simp: tx_control_def mcs_flags Let_def bit.conj_disj_distrib2 and_flag)
  have k2: "k + 1 = nat transmit_size + 2" unfolding assms(6) by simp
  show ?thesis
  proof (intro conjI allI impI)
    show "length cs \<le> nat transmit_size + nat receive_size + 2" by (rule len)
    show "cs ! 0 = RegWrite (LM4_I2C_MSA port) (word_of_int slave_addr AND 255)"
      if "0 < length cs"
      using nth[OF that] E(2) by simp
    show "\<exists>v. cs ! Suc j = RegWrite (LM4_I2C_MCS port) v \<and> v AND LM4_I2C_MCS_ACK = 0"
      if "j < nat transmit_size \<and> Suc j < length cs" for j
      using nth[of "Suc j"] E(3)[of j] that txack by simp
    show "cs ! k = RegWrite (LM4_I2C_MSA port) ((word_of_int slave_addr AND 255) OR 1)"
      if "k < length cs"
      using nth[OF that] E(4) unfolding assms(6) by simp
    show "\<exists>v. cs ! (k + 1) = RegWrite (LM4_I2C_MCS port) v \<and>
                 v AND LM4_I2C_MCS_START \<noteq> 0 \<and> v AND LM4_I2C_MCS_RUN \<noteq> 0"
      if "k + 1 < length cs"
      using nth[OF that] E(5) rx_control_bits(3,4)[of receive_size stop False 0]
      unfolding k2 by simp
    show "length cs = nat transmit_size + nat receive_size + 2"
      if "i2c_transmit_receive ports gl port slave_addr (Some td) transmit_size
          receive_data receive_size start stop w = Inr (EC_SUCCESS, rd', w')" for rd'
      using full[OF that] .
  qed
qed

theorem direction_change_restart_witness:
  "\<exists>w'. final_world (\<lambda>(rv, rd, w). w)
           (i2c_transmit_receive ports1 gl1 0 22 (Some [7]) 1 (Some [0, 0]) 2 0 1 world_idle)
           = Some w' \<and>
         length (ctl_writes 0 (trace w')) = 5 \<and>
         ctl_writes 0 (trace w') ! 2 = RegWrite (LM4_I2C_MSA 0) 23 \<and>
         (\<exists>v. ctl_writes 0 (trace w') ! 3 = RegWrite (LM4_I2C_MCS 0) v \<and>
              v AND LM4_I2C_MCS_START \<noteq> 0 \<and> v AND LM4_I2C_MCS_RUN \<noteq> 0)"
proof -
  have "\<exists>rv rd w'. i2c_transmit_receive ports1 gl1 0 22 (Some [7]) 1 (Some [0, 0]) 2 0 1 world_idle
          = Inr (rv, rd, w') \<and> length (ctl_writes 0 (trace w')) = 5"
    by (simp add: world_idle_def ports1_def gl1_def run_defs ctl_writes_def)
  then obtain rv rd w1 where
    run: "i2c_transmit_receive ports1 gl1 0 22 (Some [7]) 1 (Some [0, 0]) 2 0 1 world_idle
            = Inr (rv, rd, w1)"
    and len: "length (ctl_writes 0 (trace w1)) = 5"
    by blast
  have fw: "final_world (\<lambda>(rv, rd, w). w)
           (i2c_transmit_receive ports1 gl1 0 22 (Some [7]) 1 (Some [0, 0]) 2 0 1 world_idle)
           = Some w1"
    by (simp add: run)
  have tr: "trace w1 = trace world_idle @ trace w1"
    by (simp add: world_idle_def)
  have k: "(2::nat) = nat 1 + 1" by simp
  note th = direction_change_restart[OF fw tr _ _ refl k]
  have a: "2 < length (ctl_writes 0 (trace w1))" and b: "2 + 1 < length (ctl_writes 0 (trace w1))"
    by (simp_all add: len)
  have three: "(2::nat) + 1 = 3" by simp
  have addr: "(word_of_int 22 AND 255) OR 1 = (23::u32)" by simp
  have c4: "ctl_writes 0 (trace w1) ! 2 = RegWrite (LM4_I2C_MSA 0) 23"
    using th[THEN conjunct2, THEN conjunct2, THEN conjunct2, THEN conjunct1, rule_format, OF _ _ a]
    unfolding addr by simp
  have c5: "\<exists>v. ctl_writes 0 (trace w1) ! 3 = RegWrite (LM4_I2C_MCS 0) v \<and>
              v AND LM4_I2C_MCS_START \<noteq> 0 \<and> v AND LM4_I2C_MCS_RUN \<noteq> 0"
    using th[THEN conjunct2, THEN conjunct2, THEN conjunct2, THEN conjunct2, THEN conjunct1,
             rule_format, OF _ _ b]
    unfolding three by simp
  from fw len c4 c5 show ?thesis by (intro exI[of _ w1] conjI)
qed




section \<open>The block read\<close>

lemma mdr_reads_append [simp]:
  "mdr_reads port (a @ b) = mdr_reads port a @ mdr_reads port b"
  by (induction port a rule: mdr_reads.induct) auto

text \<open>Waiting for the port reads the status register only.\<close>

lemma wait_idle_loop_reads:
  assumes "final_world snd (wait_idle_loop port i event w) = Some w'"
  shows "\<exists>es. trace w' = trace w @ es \<and> mdr_reads port es = []"
  using assms
proof (induction evs \<equiv> "event_in w" arbitrary: w i event)
  case Nil
  then show ?case
    by (subst (asm) wait_idle_loop.simps)
       (auto simp: io_defs Let_def split: if_splits)
next
  case (Cons e evs)
  show ?case
  proof (cases "i AND LM4_I2C_MCS_BUSY \<noteq> 0")
    case False
    with Cons.prems show ?thesis
      by (subst (asm) wait_idle_loop.simps)
         (auto simp: io_defs Let_def split: if_splits)
  next
    case True
    define r where "r = pending w (cur_task w) OR e"
    define event' where "event' = event OR (r AND NOT TASK_EVENT_I2C_IDLE)"
    define w5 where "w5 = w\<lparr>event_in := evs, pending := (pending w)(cur_task w := 0),
        trace := trace w @ [RegWrite (LM4_I2C_MIMR port) 3, TaskWaitEvent 1000000 r,
                            RegWrite (LM4_I2C_MIMR port) 0],
        task_waiting_on_port := (task_waiting_on_port w)(port := None)\<rparr>"
    show ?thesis
    proof (cases "event' AND TASK_EVENT_TIMER \<noteq> 0")
      case t: True
      have eq: "wait_idle_loop port i event w = Inr (EC_ERROR_TIMEOUT,
                  task_set_event (cur_task w) (event' AND NOT TASK_EVENT_TIMER) 0 w5)"
        using True t Cons.hyps(2)[symmetric]
        by (subst wait_idle_loop.simps)
           (simp add: io_defs Let_def r_def event'_def w5_def)
      with Cons.prems
      have w': "w' = task_set_event (cur_task w) (event' AND NOT TASK_EVENT_TIMER) 0 w5"
        by simp
      show ?thesis
        unfolding w'
        by (rule exI[of _ "[RegWrite (LM4_I2C_MIMR port) 3, TaskWaitEvent 1000000 r,
               RegWrite (LM4_I2C_MIMR port) 0,
               TaskSetEvent (cur_task w) (event' AND NOT TASK_EVENT_TIMER) 0]"])
           (simp add: io_defs w5_def)
    next
      case f: False
      define w6 where "w6 = snd (reg_read (LM4_I2C_MCS port) w5)"
      define i' where "i' = fst (reg_read (LM4_I2C_MCS port) w5)"
      have eq: "wait_idle_loop port i event w = wait_idle_loop port i' event' w6"
        using True f Cons.hyps(2)[symmetric]
        by (subst wait_idle_loop.simps)
           (simp add: io_defs Let_def r_def event'_def w5_def w6_def i'_def)
      have evs: "evs = event_in w6" by (simp add: w6_def w5_def)
      from Cons.hyps(1)[OF evs, of i' event'] Cons.prems eq
      obtain es where es: "trace w' = trace w6 @ es" "mdr_reads port es = []"
        by auto
      show ?thesis
        apply (rule exI[of _ "[RegWrite (LM4_I2C_MIMR port) 3, TaskWaitEvent 1000000 r,
               RegWrite (LM4_I2C_MIMR port) 0, RegRead (LM4_I2C_MCS port) i'] @ es"])
        using es
        apply (simp add: w6_def w5_def io_defs i'_def)
        done
    qed
  qed
qed

lemma wait_idle_reads:
  assumes "wait_idle port w = Inr (rv, w')"
  shows "\<exists>es. trace w' = trace w @ es \<and> mdr_reads port es = []"
proof -
  define i where "i = fst (reg_read (LM4_I2C_MCS port) w)"
  define w1 where "w1 = snd (reg_read (LM4_I2C_MCS port) w)"
  have eq: "wait_idle port w = wait_idle_loop port i 0 w1"
    by (simp add: wait_idle_def i_def w1_def split: prod.splits)
  have tr1: "trace w1 = trace w @ [RegRead (LM4_I2C_MCS port) i]"
    by (simp_all add: w1_def i_def reg_read_def emit_def)
  from wait_idle_loop_reads[of port i 0 w1 w'] assms eq
  obtain es where "trace w' = trace w1 @ es" "mdr_reads port es = []"
    by auto
  with tr1 show ?thesis
    by (intro exI[of _ "RegRead (LM4_I2C_MCS port) i # es"]) simp
qed

text \<open>The read loop from byte \<open>i\<close>: the bytes it stores are the values it reads from the
  data register, one after the other from index \<open>i\<close>; the rest of the buffer is left as
  it was; it reads all \<open>receive_size - i\<close> of them when it ends with \<open>EC_SUCCESS\<close>.\<close>

lemma rx_loop_data:
  assumes "rx_loop port (Some rd) rs stop i started w = Inr (rv, st, rd', w')"
  shows "\<exists>d' es. rd' = Some d' \<and> trace w' = trace w @ es \<and> length d' = length rd \<and>
           int (i + length (mdr_reads port es)) \<le> max (int i) rs \<and>
           (length (mdr_reads port es) \<noteq> 0 \<longrightarrow> i + length (mdr_reads port es) \<le> length rd) \<and>
           (\<forall>j<length rd.
              (j < i \<or> i + length (mdr_reads port es) \<le> j \<longrightarrow> d' ! j = rd ! j) \<and>
              (i \<le> j \<and> j < i + length (mdr_reads port es)
                 \<longrightarrow> d' ! j = ucast (mdr_reads port es ! (j - i) AND 255))) \<and>
           (rv = EC_SUCCESS \<longrightarrow> int (i + length (mdr_reads port es)) = max (int i) rs)"
  using assms
proof (induction m \<equiv> "nat (rs - int i)" arbitrary: i started w rd)
  case 0
  then have "rx_loop port (Some rd) rs stop i started w = Inr (EC_SUCCESS, started, Some rd, w)"
    by (subst rx_loop.simps) simp
  with 0 show ?case
    by (intro exI[of _ rd] exI[of _ "[]"]) auto
next
  case (Suc m)
  then have lt: "int i < rs" by simp
  show ?case
  proof (cases "i < length rd")
    case False
    with lt Suc.prems show ?thesis
      by (subst (asm) rx_loop.simps) simp
  next
    case True
    define w2 where "w2 = reg_write (LM4_I2C_MCS port) (rx_control rs stop started i)
                            (reg_write (LM4_I2C_MDR port) (ucast (rd ! i)) w)"
    have tr2: "trace w2 = trace w @ [RegWrite (LM4_I2C_MDR port) (ucast (rd ! i)),
                                     RegWrite (LM4_I2C_MCS port) (rx_control rs stop started i)]"
      by (simp add: w2_def reg_write_def emit_def)
    have eq: "rx_loop port (Some rd) rs stop i started w =
        bind_stop (wait_idle port w2)
          (\<lambda>(rv, w3). if rv \<noteq> EC_SUCCESS then Inr (rv, True, Some rd, w3)
              else (case reg_read (LM4_I2C_MDR port) w3 of
                      (v, w4) \<Rightarrow> rx_loop port (Some (rd[i := ucast (v AND 255)])) rs stop (Suc i) True w4))"
      using lt True by (subst rx_loop.simps) (simp add: Let_def w2_def)
    from Suc.prems[unfolded eq] obtain rv1 w3 where
      wi: "wait_idle port w2 = Inr (rv1, w3)"
      by (auto simp: bind_stop_def split: sum.splits)
    from wait_idle_reads[OF wi] obtain esw where
      esw: "trace w3 = trace w2 @ esw" "mdr_reads port esw = []"
      by blast
    let ?pre = "[RegWrite (LM4_I2C_MDR port) (ucast (rd ! i)),
                 RegWrite (LM4_I2C_MCS port) (rx_control rs stop started i)] @ esw"
    have pre: "trace w3 = trace w @ ?pre" "mdr_reads port ?pre = []"
      using esw tr2 by simp_all
    show ?thesis
    proof (cases "rv1 \<noteq> EC_SUCCESS")
      case True
      with Suc.prems[unfolded eq] wi
      have r: "rv = rv1" "rd' = Some rd" "w' = w3"
        by (auto simp: bind_stop_def)
      show ?thesis
        using pre True lt r
        by (intro exI[of _ rd] exI[of _ ?pre]) (auto simp: max_def)
    next
      case False
      define v where "v = fst (reg_read (LM4_I2C_MDR port) w3)"
      define w4 where "w4 = snd (reg_read (LM4_I2C_MDR port) w3)"
      define x where "x = (ucast (v AND 255) :: u8)"
      have tr4: "trace w4 = trace w3 @ [RegRead (LM4_I2C_MDR port) v]"
        by (simp add: w4_def v_def reg_read_def emit_def)
      have r: "rx_loop port (Some (rd[i := x])) rs stop (Suc i) True w4
                 = Inr (rv, st, rd', w')"
        using Suc.prems[unfolded eq] wi False
        by (simp add: bind_stop_def v_def w4_def x_def split: prod.splits)
      have m: "m = nat (rs - int (Suc i))" using Suc.hyps(2) by simp
      from Suc.hyps(1)[OF m r] obtain d' es' where
        d: "rd' = Some d'" "trace w' = trace w4 @ es'" "length d' = length (rd[i := x])"
           "int (Suc i + length (mdr_reads port es')) \<le> max (int (Suc i)) rs"
           "length (mdr_reads port es') \<noteq> 0
              \<longrightarrow> Suc i + length (mdr_reads port es') \<le> length (rd[i := x])"
           "\<forall>j<length (rd[i := x]).
              (j < Suc i \<or> Suc i + length (mdr_reads port es') \<le> j \<longrightarrow> d' ! j = rd[i := x] ! j) \<and>
              (Suc i \<le> j \<and> j < Suc i + length (mdr_reads port es')
                 \<longrightarrow> d' ! j = ucast (mdr_reads port es' ! (j - Suc i) AND 255))"
           "rv = EC_SUCCESS \<longrightarrow> int (Suc i + length (mdr_reads port es')) = max (int (Suc i)) rs"
        by blast
      define vs where "vs = mdr_reads port es'"
      let ?es = "?pre @ [RegRead (LM4_I2C_MDR port) v] @ es'"
      have tr: "trace w' = trace w @ ?es" using d(2) tr4 pre(1) by simp
      have rd: "mdr_reads port ?es = v # vs" using esw(2) by (simp add: vs_def)
      have mx: "max (int (Suc i)) rs = max (int i) rs" using lt by (simp add: max_def)
      have c1: "int (i + length (v # vs)) \<le> max (int i) rs"
        using d(4) mx by (simp add: vs_def)
      have c2: "i + length (v # vs) \<le> length rd"
        using d(5) True by (cases "length vs = 0") (simp_all add: vs_def)
      have c3: "d' ! j = rd ! j"
        if "j < length rd" "j < i \<or> i + length (v # vs) \<le> j" for j
      proof -
        have "j \<noteq> i" using that(2) by auto
        moreover have "d' ! j = rd[i := x] ! j"
          using d(6)[rule_format, of j, THEN conjunct1] that by (auto simp: vs_def)
        ultimately show ?thesis by simp
      qed
      have c4: "d' ! j = ucast ((v # vs) ! (j - i) AND 255)"
        if "j < length rd" "i \<le> j \<and> j < i + length (v # vs)" for j
      proof (cases "j = i")
        case True
        have "d' ! i = rd[i := x] ! i"
          using d(6)[rule_format, of i, THEN conjunct1] \<open>i < length rd\<close> by simp
        then show ?thesis using True \<open>i < length rd\<close> by (simp add: x_def)
      next
        case False
        with that have a: "Suc i \<le> j \<and> j < Suc i + length (mdr_reads port es')"
          by (simp add: vs_def)
        have "d' ! j = ucast (mdr_reads port es' ! (j - Suc i) AND 255)"
          using d(6)[rule_format, of j, THEN conjunct2] that(1) a by simp
        moreover have "(v # vs) ! (j - i) = vs ! (j - Suc i)"
          using a by (simp add: nth_Cons')
        ultimately show ?thesis by (simp add: vs_def)
      qed
      have c5: "rv = EC_SUCCESS \<longrightarrow> int (i + length (v # vs)) = max (int i) rs"
        using d(7) mx by (simp add: vs_def)
      show ?thesis
        apply (rule exI[of _ d'])
        apply (rule exI[of _ ?es])
        unfolding rd
        using d(1) tr d(3) c1 c2 c3 c4 c5
        apply (intro conjI allI impI)
        apply simp_all
        done
    qed
  qed
qed

text \<open>The payload transfer of \<open>i2c_read_string\<close>: nothing to send, no start.\<close>

lemma payload_read_data:
  assumes "i2c_transmit_receive ports gl port sa None 0 (Some rd) rs 0 stop w = Inr (rv, rd', w')"
      and "0 \<le> rs"
  shows "\<exists>d' es. rd' = Some d' \<and> trace w' = trace w @ es \<and> length d' = length rd \<and>
           length (mdr_reads port es) \<le> nat rs \<and>
           (length (mdr_reads port es) \<noteq> 0 \<longrightarrow> length (mdr_reads port es) \<le> length rd) \<and>
           (\<forall>j<length rd.
              (length (mdr_reads port es) \<le> j \<longrightarrow> d' ! j = rd ! j) \<and>
              (j < length (mdr_reads port es)
                 \<longrightarrow> d' ! j = ucast (mdr_reads port es ! j AND 255))) \<and>
           (rv = EC_SUCCESS \<longrightarrow> length (mdr_reads port es) = nat rs)"
proof (cases "rs = 0")
  case True
  with assms(1) have "rv = EC_SUCCESS" "rd' = Some rd" "w' = w"
    by (auto simp: i2c_transmit_receive_def)
  then show ?thesis using True
    by (intro exI[of _ rd] exI[of _ "[]"]) simp
next
  case False
  then have nz: "((0::int) = 0 \<and> rs = 0) = False" by simp
  define i0 where "i0 = fst (reg_read (LM4_I2C_MCS port) w)"
  define w1 where "w1 = snd (reg_read (LM4_I2C_MCS port) w)"
  define w2 where "w2 = reg_write (LM4_I2C_MSA port) ((word_of_int sa AND 255) OR 1) w1"
  have pc: "port_check ports gl port sa 0 w = Inr w1"
    by (simp add: port_check_def w1_def split: prod.splits)
  have wp: "write_phase port sa None 0 rs 0 stop w1 = Inr (EC_SUCCESS, True, w1)"
    by (simp add: write_phase_def)
  have rp: "read_phase port sa 0 (Some rd) rs stop True w1 = rx_loop port (Some rd) rs stop 0 True w2"
    using False by (simp add: read_phase_def w2_def)
  have tr2: "trace w2 = trace w @ [RegRead (LM4_I2C_MCS port) i0,
               RegWrite (LM4_I2C_MSA port) ((word_of_int sa AND 255) OR 1)]"
    by (simp add: w2_def w1_def i0_def reg_write_def reg_read_def emit_def)
  have call: "bind_stop (rx_loop port (Some rd) rs stop 0 True w2)
                (\<lambda>(rv', started', rd', w5).
                   if rv' \<noteq> EC_SUCCESS then Inr (rv', rd', w5)
                   else (case reg_read (LM4_I2C_MCS port) w5 of
                           (v, w6) \<Rightarrow>
                             if v AND (LM4_I2C_MCS_CLKTO OR LM4_I2C_MCS_ARBLST OR
                                       LM4_I2C_MCS_ERROR) \<noteq> 0
                             then Inr (EC_ERROR_UNKNOWN, rd', w6)
                             else Inr (EC_SUCCESS, rd', w6))) = Inr (rv, rd', w')"
    using assms(1) unfolding i2c_transmit_receive_def nz if_False
    by (simp add: pc wp rp bind_stop_def)
  then obtain rv2 st2 rd2 w5 where
    rx: "rx_loop port (Some rd) rs stop 0 True w2 = Inr (rv2, st2, rd2, w5)"
    by (auto simp: bind_stop_def split: sum.splits)
  from rx_loop_data[OF rx] obtain d' es where
    d: "rd2 = Some d'" "trace w5 = trace w2 @ es" "length d' = length rd"
       "int (0 + length (mdr_reads port es)) \<le> max (int 0) rs"
       "length (mdr_reads port es) \<noteq> 0 \<longrightarrow> 0 + length (mdr_reads port es) \<le> length rd"
       "\<forall>j<length rd.
          (j < 0 \<or> 0 + length (mdr_reads port es) \<le> j \<longrightarrow> d' ! j = rd ! j) \<and>
          (0 \<le> j \<and> j < 0 + length (mdr_reads port es)
             \<longrightarrow> d' ! j = ucast (mdr_reads port es ! (j - 0) AND 255))"
       "rv2 = EC_SUCCESS \<longrightarrow> int (0 + length (mdr_reads port es)) = max (int 0) rs"
    by blast
  have mx: "max (int 0) rs = rs" using assms(2) by simp
  have res: "rd' = rd2 \<and> (rv = EC_SUCCESS \<longrightarrow> rv2 = EC_SUCCESS) \<and>
             (\<exists>post. trace w' = trace w5 @ post \<and> mdr_reads port post = [])"
  proof (cases "rv2 \<noteq> EC_SUCCESS")
    case True
    with call rx have "rv = rv2" "rd' = rd2" "w' = w5" by (auto simp: bind_stop_def)
    then show ?thesis using True by (intro conjI exI[of _ "[]"]) simp_all
  next
    case False
    define v where "v = fst (reg_read (LM4_I2C_MCS port) w5)"
    define w6 where "w6 = snd (reg_read (LM4_I2C_MCS port) w5)"
    have tr6: "trace w6 = trace w5 @ [RegRead (LM4_I2C_MCS port) v]"
      by (simp add: w6_def v_def reg_read_def emit_def)
    from call rx False have "rd' = rd2" "w' = w6"
      by (auto simp: bind_stop_def v_def w6_def split: prod.splits if_splits)
    then show ?thesis using False tr6
      by (intro conjI exI[of _ "[RegRead (LM4_I2C_MCS port) v]"]) simp_all
  qed
  then obtain post where
    post: "trace w' = trace w5 @ post" "mdr_reads port post = []"
    and rd2: "rd' = rd2" and ok: "rv = EC_SUCCESS \<longrightarrow> rv2 = EC_SUCCESS"
    by blast
  let ?es = "[RegRead (LM4_I2C_MCS port) i0,
              RegWrite (LM4_I2C_MSA port) ((word_of_int sa AND 255) OR 1)] @ es @ post"
  have tr: "trace w' = trace w @ ?es" using post(1) d(2) tr2 by simp
  have rdm: "mdr_reads port ?es = mdr_reads port es" using post(2) by simp
  show ?thesis
    apply (rule exI[of _ d'])
    apply (rule exI[of _ ?es])
    unfolding rdm
    using d(1) rd2 tr d(3) d(4) d(5) d(6) d(7) ok mx
    apply (intro conjI allI impI)
    apply simp_all
    done
qed

text \<open>The clamp \<open>if (len && block_length > len - 1) block_length = len - 1\<close> on the
  8-bit \<open>block_length\<close>, for \<open>len \<ge> 0\<close>.\<close>

lemma int_unat_uint: "int (unat (x::u8)) = uint x"
  by simp

lemma block_length_clamp:
  assumes "0 \<le> len"
  shows "uint (if len \<noteq> 0 \<and> uint bl > len - 1 then (word_of_int (len - 1) :: u8) else bl) =
           int (if len = 0 then unat bl else min (unat bl) (nat (len - 1)))"
proof (cases "len \<noteq> 0 \<and> uint bl > len - 1")
  case True
  have "uint bl < 256" using uint_bounded[of bl] by simp
  with True assms have r: "0 \<le> len - 1" "len - 1 < 256" by simp_all
  have "uint (word_of_int m :: u8) = m" if "0 \<le> m" "m < 256" for m
    using that by (simp add: uint_word_of_int take_bit_eq_mod)
  from this[OF r] have e1: "uint (word_of_int (len - 1) :: u8) = len - 1" .
  have e2: "min (unat bl) (nat (len - 1)) = nat (len - 1)"
    using True r int_unat_uint[of bl] by linarith
  have lhs: "(if len \<noteq> 0 \<and> uint bl > len - 1 then (word_of_int (len - 1) :: u8) else bl)
               = word_of_int (len - 1)"
    by (rule if_P[OF True])
  have "\<not> len = 0" using True by simp
  then have rhs: "(if len = 0 then unat bl else min (unat bl) (nat (len - 1)))
                    = nat (len - 1)"
    using e2 by simp
  have e3: "int (nat (len - 1)) = len - 1" using r(1) by simp
  show ?thesis unfolding lhs rhs e1 e3 ..
next
  case False
  have e2: "(if len = 0 then unat bl else min (unat bl) (nat (len - 1))) = unat bl"
  proof (cases "len = 0")
    case True
    then show ?thesis by simp
  next
    case nz: False
    with False have "\<not> uint bl > len - 1" by simp
    then have "min (unat bl) (nat (len - 1)) = unat bl"
      using assms int_unat_uint[of bl] by linarith
    with nz show ?thesis by simp
  qed
  have lhs: "(if len \<noteq> 0 \<and> uint bl > len - 1 then (word_of_int (len - 1) :: u8) else bl) = bl"
    by (rule if_not_P[OF False])
  show ?thesis unfolding lhs e2 by simp
qed

text \<open>
  C7, as the code has it. Take a call of \<open>i2c_read_string\<close> with \<open>len \<ge> 0\<close> that
  returns. If the transfer that reads the block length fails, its code is returned and
  the buffer is the one passed in: nothing is stored, no NUL either. If it succeeds with
  length byte \<open>bl\<close>, let \<open>n\<close> be \<open>min bl (len - 1)\<close> when \<open>len \<ge> 1\<close>, so that
  \<open>n \<le> len - 1\<close>, and \<open>bl\<close> itself, not clamped, when \<open>len = 0\<close>; the buffer has more
  than \<open>n\<close> bytes (the call writes outside it otherwise). Let \<open>vs\<close> be the values read
  from the data register by the payload transfer. There are at most \<open>n\<close> of them and
  they are the first bytes of the buffer, in order; the bytes from there up to index \<open>n\<close>
  are the old ones; the byte at index \<open>n\<close> is 0, whatever the payload transfer returned;
  the bytes after it are unchanged. When the call returns \<open>EC_SUCCESS\<close> all \<open>n\<close> bytes
  were read, so the 0 follows the bytes copied at once.
\<close>

theorem read_string_terminated:
  assumes "i2c_read_string ports gl port slave_addr offset data len w = Inr (rv, data', w')"
      and "length_read ports gl port slave_addr offset w = Inr (rv1, rd1, w1)"
      and "0 \<le> len"
  shows "(rv1 \<noteq> EC_SUCCESS \<longrightarrow> rv = rv1 \<and> data' = data) \<and>
         (rv1 = EC_SUCCESS \<longrightarrow>
            (\<exists>bl n es vs.
               rd1 = Some [bl] \<and>
               n = (if len = 0 then unat bl else min (unat bl) (nat (len - 1))) \<and>
               (1 \<le> len \<longrightarrow> int n \<le> len - 1) \<and>
               trace w' = trace w1 @ es \<and> vs = mdr_reads port es \<and>
               length vs \<le> n \<and> n < length data \<and> length data' = length data \<and>
               (\<forall>j<length vs. data' ! j = ucast (vs ! j AND 255)) \<and>
               (\<forall>j. length vs \<le> j \<and> j < n \<longrightarrow> data' ! j = data ! j) \<and>
               data' ! n = 0 \<and>
               (\<forall>j<length data. n < j \<longrightarrow> data' ! j = data ! j) \<and>
               (rv = EC_SUCCESS \<longrightarrow> length vs = n)))"
proof -
  obtain bl0 w0 where u: "uninitialised 1 w = (bl0, w0)" by (cases "uninitialised 1 w")
  have first: "i2c_transmit_receive ports gl port slave_addr (Some [word_of_int offset]) 1
          (Some bl0) 1 START NO_STOP (mutex_lock (port_mutex port) w0) = Inr (rv1, rd1, w1)"
    using assms(2) unfolding length_read_def u by simp
  show ?thesis
  proof (cases "rv1 = EC_SUCCESS")
    case False
    with assms(1) show ?thesis
      unfolding i2c_read_string_def u by (simp add: first bind_stop_def)
  next
    case True
    have "\<exists>bl. rd1 = Some [bl]"
    proof (rule ccontr)
      assume "\<not> (\<exists>bl. rd1 = Some [bl])"
      then have "(case rd1 of Some [bl] \<Rightarrow> f bl | _ \<Rightarrow> Inl BadAccess) = Inl BadAccess"
        for f :: "u8 \<Rightarrow> stop + (ec_error_list \<times> u8 list \<times> world)"
        by (auto split: option.splits list.splits)
      with assms(1) True show False
        unfolding i2c_read_string_def u by (simp add: first bind_stop_def)
    qed
    then obtain bl where bl: "rd1 = Some [bl]" by blast
    define blk where
      "blk = (if len \<noteq> 0 \<and> uint bl > len - 1 then (word_of_int (len - 1) :: u8) else bl)"
    define n where "n = (if len = 0 then unat bl else min (unat bl) (nat (len - 1)))"
    have ub: "uint blk = int n"
      unfolding blk_def n_def by (rule block_length_clamp[OF assms(3)])
    then have un: "unat blk = n" using int_unat_uint[of blk] by linarith
    have nle: "1 \<le> len \<longrightarrow> int n \<le> len - 1" by (auto simp: n_def)
    have H: "bind_stop
             (i2c_transmit_receive ports gl port slave_addr None 0 (Some data) (uint blk)
                0 STOP w1)
             (\<lambda>(rv2, rd2, w3).
                case rd2 of
                  Some d \<Rightarrow>
                    if unat blk < length d
                    then Inr (rv2, d[unat blk := 0], mutex_unlock (port_mutex port) w3)
                    else Inl BadAccess
                | None \<Rightarrow> Inl BadAccess) = Inr (rv, data', w')"
      using assms(1) True
      unfolding i2c_read_string_def u Let_def blk_def NO_START_def
      by (simp add: first bind_stop_def bl)
    note run = H[unfolded ub un]
    from run obtain rv2 rd2 w3 where
      second: "i2c_transmit_receive ports gl port slave_addr None 0 (Some data) (int n)
                 0 STOP w1 = Inr (rv2, rd2, w3)"
      by (auto simp: bind_stop_def split: sum.splits)
    have n0: "0 \<le> int n" by simp
    from payload_read_data[OF second n0] obtain d es2 where
      d: "rd2 = Some d" "trace w3 = trace w1 @ es2" "length d = length data"
         "length (mdr_reads port es2) \<le> nat (int n)"
         "\<forall>j<length data.
            (length (mdr_reads port es2) \<le> j \<longrightarrow> d ! j = data ! j) \<and>
            (j < length (mdr_reads port es2)
               \<longrightarrow> d ! j = ucast (mdr_reads port es2 ! j AND 255))"
         "rv2 = EC_SUCCESS \<longrightarrow> length (mdr_reads port es2) = nat (int n)"
      by blast
    define vs where "vs = mdr_reads port es2"
    have nlt: "n < length data"
    proof (rule ccontr)
      assume "\<not> n < length data"
      with run show False by (simp add: second bind_stop_def d)
    qed
    have res: "data' = d[n := 0]" "rv = rv2" "w' = mutex_unlock (port_mutex port) w3"
      using run nlt by (simp_all add: second bind_stop_def d)
    let ?es = "es2 @ [MutexUnlock (port_mutex port)]"
    have tr: "trace w' = trace w1 @ ?es"
      by (simp add: res(3) d(2) mutex_unlock_def emit_def)
    have rdm: "mdr_reads port ?es = vs" by (simp add: vs_def)
    have lv: "length vs \<le> n" using d(4) by (simp add: vs_def)
    have ld: "length data' = length data" by (simp add: res d)
    have low: "data' ! j = ucast (vs ! j AND 255)" if "j < length vs" for j
    proof -
      have "j < length data" "j \<noteq> n" using that lv nlt by simp_all
      then show ?thesis
        using d(5)[rule_format, of j, THEN conjunct2] that by (simp add: res vs_def)
    qed
    have mid: "data' ! j = data ! j" if "length vs \<le> j \<and> j < n" for j
    proof -
      have "j < length data" "j \<noteq> n" using that nlt by simp_all
      then show ?thesis
        using d(5)[rule_format, of j, THEN conjunct1] that by (simp add: res vs_def)
    qed
    have nul: "data' ! n = 0" using nlt by (simp add: res d)
    have high: "data' ! j = data ! j" if "j < length data" "n < j" for j
      using d(5)[rule_format, of j, THEN conjunct1] that lv by (simp add: res vs_def)
    have full: "rv = EC_SUCCESS \<longrightarrow> length vs = n"
      using d(6) by (simp add: res vs_def)
    have "\<exists>bl n es vs.
               rd1 = Some [bl] \<and>
               n = (if len = 0 then unat bl else min (unat bl) (nat (len - 1))) \<and>
               (1 \<le> len \<longrightarrow> int n \<le> len - 1) \<and>
               trace w' = trace w1 @ es \<and> vs = mdr_reads port es \<and>
               length vs \<le> n \<and> n < length data \<and> length data' = length data \<and>
               (\<forall>j<length vs. data' ! j = ucast (vs ! j AND 255)) \<and>
               (\<forall>j. length vs \<le> j \<and> j < n \<longrightarrow> data' ! j = data ! j) \<and>
               data' ! n = 0 \<and>
               (\<forall>j<length data. n < j \<longrightarrow> data' ! j = data ! j) \<and>
               (rv = EC_SUCCESS \<longrightarrow> length vs = n)"
      apply (rule exI[of _ bl])
      apply (rule exI[of _ n])
      apply (rule exI[of _ ?es])
      apply (rule exI[of _ vs])
      unfolding rdm
      using bl n_def nle tr lv nlt ld low mid nul high full
      apply (intro conjI allI impI)
      apply simp_all
      done
    with True show ?thesis by simp
  qed
qed

theorem read_string_terminated_witness:
  "(\<exists>data' w' w1.
      i2c_read_string ports1 gl1 0 22 5 [65, 65, 65, 65, 65, 65, 65, 65] 8 world_nack
        = Inr (EC_ERROR_UNKNOWN, data', w') \<and>
      length_read ports1 gl1 0 22 5 world_nack = Inr (EC_SUCCESS, Some [3], w1) \<and>
      length data' = 8 \<and> data' ! 3 = 0 \<and> data' ! 4 = 65 \<and> data' ! 7 = 65 \<and>
      length (mdr_reads 0 (drop (length (trace w1)) (trace w'))) \<le> 3) \<and>
   (\<exists>data' w' w1.
      i2c_read_string ports1 gl1 0 22 5 [65, 65, 65, 65] 0 world_idle
        = Inr (EC_SUCCESS, data', w') \<and>
      length_read ports1 gl1 0 22 5 world_idle = Inr (EC_SUCCESS, Some [2], w1) \<and>
      length data' = 4 \<and> data' ! 2 = 0 \<and> data' ! 3 = 65 \<and>
      length (mdr_reads 0 (drop (length (trace w1)) (trace w'))) = 2)"
proof -
  have "\<exists>data' w'. i2c_read_string ports1 gl1 0 22 5 [65, 65, 65, 65, 65, 65, 65, 65] 8 world_nack
          = Inr (EC_ERROR_UNKNOWN, data', w')"
    by (simp add: i2c_read_string_def world_nack_def ports1_def gl1_def run_defs)
  then obtain d w2 where
    run: "i2c_read_string ports1 gl1 0 22 5 [65, 65, 65, 65, 65, 65, 65, 65] 8 world_nack
            = Inr (EC_ERROR_UNKNOWN, d, w2)"
    by blast
  have "\<exists>w1. length_read ports1 gl1 0 22 5 world_nack = Inr (EC_SUCCESS, Some [3], w1)"
    by (simp add: length_read_def world_nack_def ports1_def gl1_def run_defs)
  then obtain w1 where
    lr: "length_read ports1 gl1 0 22 5 world_nack = Inr (EC_SUCCESS, Some [3], w1)"
    by blast
  have l8: "(0::int) \<le> 8" by simp
  from read_string_terminated[OF run lr l8, THEN conjunct2, rule_format, OF refl]
  obtain bl n es vs where
    a: "Some [3 :: u8] = Some [bl]"
       "n = (if (8::int) = 0 then unat bl else min (unat bl) (nat (8 - 1)))"
       "trace w2 = trace w1 @ es" "vs = mdr_reads 0 es" "length vs \<le> n"
       "length d = length [65, 65, 65, 65, 65, 65, 65, 65 :: u8]" "d ! n = 0"
    and b: "\<forall>j<length [65, 65, 65, 65, 65, 65, 65, 65 :: u8].
              n < j \<longrightarrow> d ! j = [65, 65, 65, 65, 65, 65, 65, 65] ! j"
    by blast
  have n3: "n = 3" using a(1,2) by simp
  have es: "drop (length (trace w1)) (trace w2) = es" by (simp add: a(3))
  have c: "length d = 8" "d ! 3 = 0" using a(6,7) n3 by simp_all
  have b4: "d ! 4 = 65" using b[rule_format, of 4] n3 by simp
  have b7: "d ! 7 = 65" using b[rule_format, of 7] n3 by simp
  have lv: "length (mdr_reads 0 (drop (length (trace w1)) (trace w2))) \<le> 3"
    unfolding es using a(4,5) n3 by simp
  have A: "\<exists>data' w' w1.
      i2c_read_string ports1 gl1 0 22 5 [65, 65, 65, 65, 65, 65, 65, 65] 8 world_nack
        = Inr (EC_ERROR_UNKNOWN, data', w') \<and>
      length_read ports1 gl1 0 22 5 world_nack = Inr (EC_SUCCESS, Some [3], w1) \<and>
      length data' = 8 \<and> data' ! 3 = 0 \<and> data' ! 4 = 65 \<and> data' ! 7 = 65 \<and>
      length (mdr_reads 0 (drop (length (trace w1)) (trace w'))) \<le> 3"
    using run lr c b4 b7 lv by blast
  have "\<exists>data' w'. i2c_read_string ports1 gl1 0 22 5 [65, 65, 65, 65] 0 world_idle
          = Inr (EC_SUCCESS, data', w')"
    by (simp add: i2c_read_string_def world_idle_def ports1_def gl1_def run_defs)
  then obtain e w4 where
    run0: "i2c_read_string ports1 gl1 0 22 5 [65, 65, 65, 65] 0 world_idle
            = Inr (EC_SUCCESS, e, w4)"
    by blast
  have "\<exists>w1. length_read ports1 gl1 0 22 5 world_idle = Inr (EC_SUCCESS, Some [2], w1)"
    by (simp add: length_read_def world_idle_def ports1_def gl1_def run_defs)
  then obtain w3 where
    lr0: "length_read ports1 gl1 0 22 5 world_idle = Inr (EC_SUCCESS, Some [2], w3)"
    by blast
  have l0: "(0::int) \<le> 0" by simp
  from read_string_terminated[OF run0 lr0 l0, THEN conjunct2, rule_format, OF refl]
  obtain bl' n' es' vs' where
    a0: "Some [2 :: u8] = Some [bl']"
       "n' = (if (0::int) = 0 then unat bl' else min (unat bl') (nat (0 - 1)))"
       "trace w4 = trace w3 @ es'" "vs' = mdr_reads 0 es'"
       "length e = length [65, 65, 65, 65 :: u8]" "e ! n' = 0"
       "EC_SUCCESS = EC_SUCCESS \<longrightarrow> length vs' = n'"
    and b0: "\<forall>j<length [65, 65, 65, 65 :: u8]. n' < j \<longrightarrow> e ! j = [65, 65, 65, 65] ! j"
    by blast
  have n2: "n' = 2" using a0(1,2) by simp
  have es0: "drop (length (trace w3)) (trace w4) = es'" by (simp add: a0(3))
  have c0: "length e = 4" "e ! 2 = 0" using a0(5,6) n2 by simp_all
  have b3: "e ! 3 = 65" using b0[rule_format, of 3] n2 by simp
  have lv0: "length (mdr_reads 0 (drop (length (trace w3)) (trace w4))) = 2"
    unfolding es0 using a0(4,7) n2 by simp
  have B: "\<exists>data' w' w1.
      i2c_read_string ports1 gl1 0 22 5 [65, 65, 65, 65] 0 world_idle
        = Inr (EC_SUCCESS, data', w') \<and>
      length_read ports1 gl1 0 22 5 world_idle = Inr (EC_SUCCESS, Some [2], w1) \<and>
      length data' = 4 \<and> data' ! 2 = 0 \<and> data' ! 3 = 65 \<and>
      length (mdr_reads 0 (drop (length (trace w1)) (trace w'))) = 2"
    using run0 lr0 c0 b3 lv0 by blast
  from A B show ?thesis by (intro conjI)
qed

theorem read_string_terminated_counterexample:
  "map_option (\<lambda>(rv, d, w). (rv, d))
     (returned (i2c_read_string ports1 gl1 0 22 5 [65, 65, 65, 65] 4 world_busy))
     = Some (EC_ERROR_TIMEOUT, [65, 65, 65, 65]) \<and>
   map_option (\<lambda>(rv, d, w). (rv, d))
     (returned (i2c_read_string ports1 gl1 0 22 5 [65, 65, 65, 65] 0 world_idle))
     = Some (EC_SUCCESS, [3, 4, 0, 65]) \<and>
   map_option (\<lambda>(rv, d, w). (rv, d))
     (returned (i2c_read_string ports1 gl1 0 22 5 [65, 65, 65, 65, 65, 65, 65, 65] 8 world_nack))
     = Some (EC_ERROR_UNKNOWN, [4, 65, 65, 0, 65, 65, 65, 65])"
proof -
  have a: "map_option (\<lambda>(rv, d, w). (rv, d))
     (returned (i2c_read_string ports1 gl1 0 22 5 [65, 65, 65, 65] 4 world_busy))
     = Some (EC_ERROR_TIMEOUT, [65, 65, 65, 65])"
    by (simp add: returned_def i2c_read_string_def world_busy_def ports1_def gl1_def run_defs)
  have b: "map_option (\<lambda>(rv, d, w). (rv, d))
     (returned (i2c_read_string ports1 gl1 0 22 5 [65, 65, 65, 65] 0 world_idle))
     = Some (EC_SUCCESS, [3, 4, 0, 65])"
    by (simp add: returned_def i2c_read_string_def world_idle_def ports1_def gl1_def run_defs)
  have c: "map_option (\<lambda>(rv, d, w). (rv, d))
     (returned (i2c_read_string ports1 gl1 0 22 5 [65, 65, 65, 65, 65, 65, 65, 65] 8 world_nack))
     = Some (EC_ERROR_UNKNOWN, [4, 65, 65, 0, 65, 65, 65, 65])"
    by (simp add: returned_def i2c_read_string_def world_nack_def ports1_def gl1_def run_defs)
  from a b c show ?thesis by (intro conjI)
qed

end
